theory Spec2Isabelle
  imports Complex_Main
begin

section \<open>Errors and results\<close>

text \<open>
  Every exception the kernel builders or the built kernels can raise is a value.
  \<open>NotImplementedError\<close> carries its message: the default of the emitter raises it
  with no message, the vectorised builder with a fixed one. \<open>Undefined\<close> is no
  exception: it ends a run at a step whose result the compiled code does not determine,
  which is an operation on not-a-number compiled with fast-math, or the conversion to an
  integer type of a value that type cannot hold.
\<close>

datatype error =
    NotImplementedError string
  | AxisError
  | ValueError
  | TypeError
  | ZeroDivisionError
  | OverflowError
  | IndexError
  | KeyError
  | NameError
  | Undefined

definition bind :: "error + 'a \<Rightarrow> ('a \<Rightarrow> error + 'b) \<Rightarrow> error + 'b" where
  "bind m f = (case m of Inl e \<Rightarrow> Inl e | Inr v \<Rightarrow> f v)"

section \<open>The scalar-op code emitter\<close>

text \<open>
  The scalar operator classes the emitter dispatches on. \<open>OtherOp\<close> stands for any
  operator class with no registered ancestor.
\<close>

datatype scalar_op =
    Add | Sub | Mean | Mul | MulWithoutZeros | AND | OR | XOR
  | TrueDiv | IntDiv | ScalarMaximum | ScalarMinimum
  | OtherOp string

text \<open>
  The emitted fragments, as syntax. \<open>Res\<close> is the cell \<open>res[idx]\<close>, \<open>Arr\<close> the operand
  expression \<open>arr\<close>, \<open>LoopVar\<close> the variable \<open>i\<close> of the enclosing reduction loop.
  \<open>IfExp body l c r orelse\<close> is the conditional expression
  \<open>body if l c r else orelse\<close>; \<open>IfStmt l c r s\<close> is the statement \<open>if l c r: s\<close>.
  The target of every assignment is \<open>res[idx]\<close>.
\<close>

datatype bop = Plus | Minus | Times | Divide | FloorDivide | BitAnd | BitOr | BitXor

datatype cop = Lt | Gt | Eq

datatype expr =
    Res
  | Arr
  | LoopVar
  | Const int
  | BinOp expr bop expr
  | IfExp expr expr cop expr expr

datatype stmt =
    Assign expr
  | AugAssign bop expr
  | IfStmt expr cop expr stmt

definition scalar_in_place_fn_Add :: stmt where
  "scalar_in_place_fn_Add = AugAssign Plus Arr"

definition scalar_in_place_fn_Sub :: stmt where
  "scalar_in_place_fn_Sub = AugAssign Minus Arr"

definition scalar_in_place_fn_Mean :: stmt where
  "scalar_in_place_fn_Mean =
     AugAssign Plus (BinOp (BinOp Arr Minus Res) Divide (BinOp LoopVar Plus (Const 1)))"

definition scalar_in_place_fn_Mul :: stmt where
  "scalar_in_place_fn_Mul = AugAssign Times Arr"

definition scalar_in_place_fn_MulWithoutZeros :: stmt where
  "scalar_in_place_fn_MulWithoutZeros =
     Assign (IfExp Arr Res Eq (Const 0)
               (IfExp Res Arr Eq (Const 0) (BinOp Res Times Arr)))"

definition scalar_in_place_fn_AND :: stmt where
  "scalar_in_place_fn_AND = AugAssign BitAnd Arr"

definition scalar_in_place_fn_OR :: stmt where
  "scalar_in_place_fn_OR = AugAssign BitOr Arr"

definition scalar_in_place_fn_XOR :: stmt where
  "scalar_in_place_fn_XOR = AugAssign BitXor Arr"

definition scalar_in_place_fn_TrueDiv :: stmt where
  "scalar_in_place_fn_TrueDiv = AugAssign Divide Arr"

definition scalar_in_place_fn_IntDiv :: stmt where
  "scalar_in_place_fn_IntDiv = AugAssign FloorDivide Arr"

definition scalar_in_place_fn_ScalarMaximum :: stmt where
  "scalar_in_place_fn_ScalarMaximum = IfStmt Res Lt Arr (Assign Arr)"

definition scalar_in_place_fn_ScalarMinimum :: stmt where
  "scalar_in_place_fn_ScalarMinimum = IfStmt Res Gt Arr (Assign Arr)"

text \<open>The table filled by the \<open>register\<close> decorators, in source order.\<close>

definition registry :: "(scalar_op \<times> stmt) list" where
  "registry =
     [(Add, scalar_in_place_fn_Add),
      (Sub, scalar_in_place_fn_Sub),
      (Mean, scalar_in_place_fn_Mean),
      (Mul, scalar_in_place_fn_Mul),
      (MulWithoutZeros, scalar_in_place_fn_MulWithoutZeros),
      (AND, scalar_in_place_fn_AND),
      (OR, scalar_in_place_fn_OR),
      (XOR, scalar_in_place_fn_XOR),
      (TrueDiv, scalar_in_place_fn_TrueDiv),
      (IntDiv, scalar_in_place_fn_IntDiv),
      (ScalarMaximum, scalar_in_place_fn_ScalarMaximum),
      (ScalarMinimum, scalar_in_place_fn_ScalarMinimum)]"

text \<open>
  Single dispatch: the registered fragment of the operator's class, and the default
  body, which raises, when there is none.
\<close>

definition scalar_in_place_fn :: "scalar_op \<Rightarrow> error + stmt" where
  "scalar_in_place_fn op =
     (case map_of registry op of
        Some s \<Rightarrow> Inr s
      | None \<Rightarrow> Inl (NotImplementedError []))"

section \<open>Element types\<close>

text \<open>Element types: the kind letter of the NumPy dtype and its width in bits.\<close>

datatype kind = KBool | KInt | KUInt | KFloat

datatype dtype = DType kind nat

definition dtype_kind :: "dtype \<Rightarrow> kind" where
  "dtype_kind dt = (case dt of DType k bits \<Rightarrow> k)"

section \<open>Scalar arithmetic of the element type\<close>

text \<open>
  The literal spliced into a kernel for the identity: \<open>np.inf\<close>, \<open>-np.inf\<close>, or the
  text \<open>str(v)\<close> of another value \<open>v\<close>.
\<close>

datatype number = BoolVal bool | IntVal int | FloatVal int | Inf | NegInf | NaN

datatype ident_src = NpInf | NegNpInf | Str number

text \<open>
  The arithmetic of the elements a kernel runs on is supplied by the runtime: the binary
  operators, which may raise, the comparisons, the value of an integer, the value of an
  identity literal, the conversion of a value stored into an array of a given element
  type, and the test for not-a-number. \<open>fast_math\<close> is the configuration value
  \<open>config.numba__fastmath\<close> the reducers are compiled with.
\<close>

record 'a arith =
  binop :: "bop \<Rightarrow> 'a \<Rightarrow> 'a \<Rightarrow> error + 'a"
  compare :: "cop \<Rightarrow> 'a \<Rightarrow> 'a \<Rightarrow> bool"
  from_int :: "int \<Rightarrow> 'a"
  literal :: "ident_src \<Rightarrow> error + 'a"
  store :: "dtype \<Rightarrow> 'a \<Rightarrow> error + 'a"
  is_nan :: "'a \<Rightarrow> bool"
  fast_math :: bool

text \<open>
  An operator or a comparison inside a reducer is compiled with the fast-math option of
  the configuration. With fast-math the compiler takes no operand and no result to be
  not-a-number: where one is, the compiled code determines no result.
\<close>

definition compiled_binop :: "'a arith \<Rightarrow> bop \<Rightarrow> 'a \<Rightarrow> 'a \<Rightarrow> error + 'a" where
  "compiled_binop A op x y =
     (if fast_math A \<and> (is_nan A x \<or> is_nan A y) then Inl Undefined
      else bind (binop A op x y) (\<lambda>r.
             if fast_math A \<and> is_nan A r then Inl Undefined else Inr r))"

definition compiled_compare :: "'a arith \<Rightarrow> cop \<Rightarrow> 'a \<Rightarrow> 'a \<Rightarrow> error + bool" where
  "compiled_compare A c x y =
     (if fast_math A \<and> (is_nan A x \<or> is_nan A y) then Inl Undefined
      else Inr (compare A c x y))"

fun eval_expr :: "'a arith \<Rightarrow> nat \<Rightarrow> 'a \<Rightarrow> 'a \<Rightarrow> expr \<Rightarrow> error + 'a" where
  "eval_expr A i res arr Res = Inr res"
| "eval_expr A i res arr Arr = Inr arr"
| "eval_expr A i res arr LoopVar = Inr (from_int A (int i))"
| "eval_expr A i res arr (Const n) = Inr (from_int A n)"
| "eval_expr A i res arr (BinOp a op b) =
     bind (eval_expr A i res arr a) (\<lambda>x.
     bind (eval_expr A i res arr b) (\<lambda>y. compiled_binop A op x y))"
| "eval_expr A i res arr (IfExp body l c r orelse) =
     bind (eval_expr A i res arr l) (\<lambda>x.
     bind (eval_expr A i res arr r) (\<lambda>y.
     bind (compiled_compare A c x y) (\<lambda>b.
       if b then eval_expr A i res arr body
       else eval_expr A i res arr orelse)))"

text \<open>
  Running a fragment gives the new contents of \<open>res[idx]\<close>. The array \<open>res\<close> has the
  element type \<open>out_dtype\<close> of the reducer, so a value assigned to \<open>res[idx]\<close> is
  converted to that type.
\<close>

fun exec_stmt :: "'a arith \<Rightarrow> dtype \<Rightarrow> nat \<Rightarrow> 'a \<Rightarrow> 'a \<Rightarrow> stmt \<Rightarrow> error + 'a" where
  "exec_stmt A out_dtype i res arr (Assign e) =
     bind (eval_expr A i res arr e) (store A out_dtype)"
| "exec_stmt A out_dtype i res arr (AugAssign op e) =
     bind (eval_expr A i res arr e) (\<lambda>v.
     bind (compiled_binop A op res v) (store A out_dtype))"
| "exec_stmt A out_dtype i res arr (IfStmt l c r s) =
     bind (eval_expr A i res arr l) (\<lambda>x.
     bind (eval_expr A i res arr r) (\<lambda>y.
     bind (compiled_compare A c x y) (\<lambda>b.
       if b then exec_stmt A out_dtype i res arr s else Inr res)))"

text \<open>
  The loop \<open>for i in range(n): fragment\<close> over the operands \<open>xs\<close> met at
  \<open>i = k, k + 1, ...\<close>.
\<close>

fun fold_axis :: "'a arith \<Rightarrow> dtype \<Rightarrow> stmt \<Rightarrow> nat \<Rightarrow> 'a \<Rightarrow> 'a list \<Rightarrow> error + 'a" where
  "fold_axis A out_dtype s i res [] = Inr res"
| "fold_axis A out_dtype s i res (x # xs) =
     bind (exec_stmt A out_dtype i res x s) (\<lambda>res'. fold_axis A out_dtype s (Suc i) res' xs)"

subsection \<open>Exact numbers with infinities and not-a-number\<close>

text \<open>
  The numbers of the elements: exact numbers, the two infinities and not-a-number, with
  the operators and comparisons of IEEE 754. Neither the rounding nor the overflow of
  floats is modelled, nor signed zeros. A comparison with \<open>Nan\<close> is false. Division by
  zero raises, as in Python. A number carries no type of its own: an integer or a boolean
  is the whole number it is. The bitwise operators, which floats do not have, work on
  whole numbers, in two's complement as Python's do, and are a \<open>TypeError\<close> on any
  other value.
\<close>

datatype 'a ext = Nan | NInf | Fin 'a | PInf

fun ext_neg :: "('a::floor_ceiling) ext \<Rightarrow> 'a ext" where
  "ext_neg Nan = Nan"
| "ext_neg NInf = PInf"
| "ext_neg PInf = NInf"
| "ext_neg (Fin a) = Fin (- a)"

fun ext_add :: "('a::floor_ceiling) ext \<Rightarrow> 'a ext \<Rightarrow> 'a ext" where
  "ext_add Nan _ = Nan"
| "ext_add _ Nan = Nan"
| "ext_add (Fin a) (Fin b) = Fin (a + b)"
| "ext_add PInf NInf = Nan"
| "ext_add NInf PInf = Nan"
| "ext_add PInf _ = PInf"
| "ext_add _ PInf = PInf"
| "ext_add NInf _ = NInf"
| "ext_add _ NInf = NInf"

text \<open>The sign of a value that is not \<open>Nan\<close>: \<open>-1\<close>, \<open>0\<close> or \<open>1\<close>.\<close>

fun ext_sgn :: "('a::floor_ceiling) ext \<Rightarrow> int" where
  "ext_sgn Nan = 0"
| "ext_sgn NInf = - 1"
| "ext_sgn PInf = 1"
| "ext_sgn (Fin a) = (if a < 0 then - 1 else if a = 0 then 0 else 1)"

definition ext_signed_inf :: "int \<Rightarrow> ('a::floor_ceiling) ext" where
  "ext_signed_inf s = (if s = 0 then Nan else if s < 0 then NInf else PInf)"

fun ext_mul :: "('a::floor_ceiling) ext \<Rightarrow> 'a ext \<Rightarrow> 'a ext" where
  "ext_mul Nan _ = Nan"
| "ext_mul _ Nan = Nan"
| "ext_mul (Fin a) (Fin b) = Fin (a * b)"
| "ext_mul x y = ext_signed_inf (ext_sgn x * ext_sgn y)"

fun ext_div :: "('a::floor_ceiling) ext \<Rightarrow> 'a ext \<Rightarrow> error + 'a ext" where
  "ext_div x (Fin b) =
     (if b = 0 then Inl ZeroDivisionError
      else case x of
        Nan \<Rightarrow> Inr Nan
      | Fin a \<Rightarrow> Inr (Fin (a / b))
      | _ \<Rightarrow> Inr (ext_signed_inf (ext_sgn x * ext_sgn (Fin b))))"
| "ext_div Nan _ = Inr Nan"
| "ext_div _ Nan = Inr Nan"
| "ext_div (Fin a) _ = Inr (Fin 0)"
| "ext_div _ _ = Inr Nan"

fun ext_floordiv :: "('a::floor_ceiling) ext \<Rightarrow> 'a ext \<Rightarrow> error + 'a ext" where
  "ext_floordiv x (Fin b) =
     (if b = 0 then Inl ZeroDivisionError
      else case x of
        Fin a \<Rightarrow> Inr (Fin (of_int \<lfloor>a / b\<rfloor>))
      | _ \<Rightarrow> Inr Nan)"
| "ext_floordiv Nan _ = Inr Nan"
| "ext_floordiv _ Nan = Inr Nan"
| "ext_floordiv (Fin a) PInf = Inr (Fin (if 0 \<le> a then 0 else - 1))"
| "ext_floordiv (Fin a) NInf = Inr (Fin (if a \<le> 0 then 0 else - 1))"
| "ext_floordiv _ _ = Inr Nan"

definition ext_bitop ::
  "(int \<Rightarrow> int \<Rightarrow> int) \<Rightarrow> ('a::floor_ceiling) ext \<Rightarrow> 'a ext \<Rightarrow> error + 'a ext" where
  "ext_bitop f a b =
     (case (a, b) of
        (Fin x, Fin y) \<Rightarrow>
          if of_int \<lfloor>x\<rfloor> = x \<and> of_int \<lfloor>y\<rfloor> = y
          then Inr (Fin (of_int (f \<lfloor>x\<rfloor> \<lfloor>y\<rfloor>)))
          else Inl TypeError
      | _ \<Rightarrow> Inl TypeError)"

definition ext_binop :: "bop \<Rightarrow> ('a::floor_ceiling) ext \<Rightarrow> 'a ext \<Rightarrow> error + 'a ext" where
  "ext_binop op a b =
     (case op of
        Plus \<Rightarrow> Inr (ext_add a b)
      | Minus \<Rightarrow> Inr (ext_add a (ext_neg b))
      | Times \<Rightarrow> Inr (ext_mul a b)
      | Divide \<Rightarrow> ext_div a b
      | FloorDivide \<Rightarrow> ext_floordiv a b
      | BitAnd \<Rightarrow> ext_bitop semiring_bit_operations_class.and a b
      | BitOr \<Rightarrow> ext_bitop semiring_bit_operations_class.or a b
      | BitXor \<Rightarrow> ext_bitop semiring_bit_operations_class.xor a b)"

fun ext_less :: "('a::floor_ceiling) ext \<Rightarrow> 'a ext \<Rightarrow> bool" where
  "ext_less Nan _ = False"
| "ext_less _ Nan = False"
| "ext_less (Fin a) (Fin b) = (a < b)"
| "ext_less _ NInf = False"
| "ext_less NInf _ = True"
| "ext_less PInf _ = False"
| "ext_less _ PInf = True"

definition ext_compare :: "cop \<Rightarrow> ('a::floor_ceiling) ext \<Rightarrow> 'a ext \<Rightarrow> bool" where
  "ext_compare c a b =
     (case c of
        Lt \<Rightarrow> ext_less a b
      | Gt \<Rightarrow> ext_less b a
      | Eq \<Rightarrow> a \<noteq> Nan \<and> a = b)"

definition ext_literal :: "ident_src \<Rightarrow> error + ('a::floor_ceiling) ext" where
  "ext_literal l =
     (case l of
        NpInf \<Rightarrow> Inr PInf
      | NegNpInf \<Rightarrow> Inr NInf
      | Str (BoolVal b) \<Rightarrow> Inr (Fin (if b then 1 else 0))
      | Str (IntVal n) \<Rightarrow> Inr (Fin (of_int n))
      | Str (FloatVal n) \<Rightarrow> Inr (Fin (of_int n))
      | Str _ \<Rightarrow> Inl NameError)"

text \<open>The whole number next to a number in the direction of zero.\<close>

definition trunc :: "'a::floor_ceiling \<Rightarrow> int" where
  "trunc v = (if v < 0 then \<lceil>v\<rceil> else \<lfloor>v\<rfloor>)"

text \<open>
  An integer reduced to the range of an integer type of the given width: modulo
  \<open>2 ^ bits\<close>, in two's complement for a signed type.
\<close>

definition wrap :: "kind \<Rightarrow> nat \<Rightarrow> int \<Rightarrow> int" where
  "wrap k bits n =
     (if k = KInt then (n + 2 ^ (bits - 1)) mod 2 ^ bits - 2 ^ (bits - 1)
      else n mod 2 ^ bits)"

text \<open>
  The conversion of a value stored into an array of an element type. A float type keeps
  the value. The boolean type keeps whether it is zero. An integer type wraps a whole
  number to its width, which is what the store of an integer result does. A number with
  a fractional part is the result of a float operation: it is truncated toward zero when
  that lies in the range of the type, and has no conversion that the compiled code
  determines when it does not; nor has an infinity or not-a-number.
\<close>

definition ext_store :: "dtype \<Rightarrow> ('a::floor_ceiling) ext \<Rightarrow> error + 'a ext" where
  "ext_store dt x =
     (case dt of DType k bits \<Rightarrow>
        (case k of
           KFloat \<Rightarrow> Inr x
         | KBool \<Rightarrow> Inr (Fin (if x = Fin 0 then 0 else 1))
         | _ \<Rightarrow>
             (case x of
                Fin v \<Rightarrow>
                  if of_int \<lfloor>v\<rfloor> = v then Inr (Fin (of_int (wrap k bits \<lfloor>v\<rfloor>)))
                  else if wrap k bits (trunc v) = trunc v then Inr (Fin (of_int (trunc v)))
                  else Inl Undefined
              | _ \<Rightarrow> Inl Undefined)))"

text \<open>The arithmetic of these numbers in a kernel compiled with the given fast-math flag.\<close>

definition ext_arith :: "bool \<Rightarrow> (('a::floor_ceiling) ext) arith" where
  "ext_arith fm =
     \<lparr>binop = ext_binop, compare = ext_compare, from_int = (\<lambda>n. Fin (of_int n)),
      literal = ext_literal, store = ext_store, is_nan = (\<lambda>x. x = Nan), fast_math = fm\<rparr>"

section \<open>Arrays\<close>

text \<open>
  A value handled by a kernel is a bare scalar or an array: its shape and its elements in
  row-major (C) order. An array of rank 0 has the empty shape and one element.
\<close>

datatype 'a val = Scalar 'a | Array "nat list" "'a list"

fun ndim :: "'a val \<Rightarrow> nat" where
  "ndim (Scalar v) = 0"
| "ndim (Array sh d) = length sh"

text \<open>An array is well formed when it has as many elements as its shape says.\<close>

fun wf_val :: "'a val \<Rightarrow> bool" where
  "wf_val (Scalar v) = True"
| "wf_val (Array sh d) = (length d = prod_list sh)"

text \<open>\<open>np.ndindex\<close>: every index tuple of a shape, the last index varying fastest.\<close>

fun ndindex :: "nat list \<Rightarrow> nat list list" where
  "ndindex [] = [[]]"
| "ndindex (n # sh) = concat (map (\<lambda>i. map ((#) i) (ndindex sh)) [0..<n])"

text \<open>The position of an index tuple in the row-major element list.\<close>

fun ravel :: "nat list \<Rightarrow> nat list \<Rightarrow> nat" where
  "ravel (n # sh) (i # idx) = i * prod_list sh + ravel sh idx"
| "ravel _ _ = 0"

section \<open>Axis normalisation\<close>

text \<open>
  NumPy's \<open>normalize_axis_index\<close>: an axis in \<open>[-ndim, ndim)\<close> is counted from the end
  when negative; any other axis is an \<open>AxisError\<close>.
\<close>

definition normalize_axis_index :: "int \<Rightarrow> nat \<Rightarrow> error + nat" where
  "normalize_axis_index axis nd =
     (if - int nd \<le> axis \<and> axis < int nd
      then Inr (nat (if axis < 0 then axis + int nd else axis))
      else Inl AxisError)"

text \<open>The first error of a list of results, or all the values.\<close>

fun sequence :: "(error + 'a) list \<Rightarrow> error + 'a list" where
  "sequence [] = Inr []"
| "sequence (m # ms) = bind m (\<lambda>v. bind (sequence ms) (\<lambda>vs. Inr (v # vs)))"

text \<open>
  NumPy's \<open>normalize_axis_tuple\<close>: every axis is normalised, and a repeated axis is a
  \<open>ValueError\<close>.
\<close>

definition normalize_axis_tuple :: "int list \<Rightarrow> nat \<Rightarrow> error + nat list" where
  "normalize_axis_tuple axes nd =
     bind (sequence (map (\<lambda>ax. normalize_axis_index ax nd) axes)) (\<lambda>axs.
       if length (remdups axs) \<noteq> length axs then Inl ValueError else Inr axs)"

section \<open>The single-axis reducer\<close>

text \<open>An index expression of the generated loop nest: \<open>idx_arr[k]\<close> or \<open>i\<close>.\<close>

datatype index = IdxArr nat | I

text \<open>
  The two function bodies \<open>careduce_axis\<close> is generated from. \<open>ReduceND\<close> is the
  template for \<open>ndim > 1\<close>: the axis, the length \<open>ndim - 1\<close> of the result shape, the
  identity literal, the index lists of \<open>res\<close> and of \<open>x\<close>, the update statement, the
  result dtype and whether the result gets \<open>np.expand_dims\<close>. \<open>Reduce1D\<close> is the other
  template: the axis, the identity literal, the update statement, the result dtype and
  whether the one-element array itself is returned rather than its \<open>item()\<close>.
\<close>

datatype careduce_axis =
    ReduceND nat nat ident_src "index list" "index list" stmt dtype bool
  | Reduce1D nat ident_src stmt dtype bool

text \<open>\<open>str(identity)\<close>, with \<open>inf\<close> and \<open>-inf\<close> rewritten to NumPy's constants.\<close>

definition identity_source :: "number \<Rightarrow> ident_src" where
  "identity_source identity =
     (if identity = Inf then NpInf
      else if identity = NegInf then NegNpInf
      else Str identity)"

text \<open>
  The loop over \<open>range(ndim)\<close> that builds the index lists: \<open>i\<close> at the reduced axis,
  the next \<open>idx_arr[count]\<close> elsewhere. The state is \<open>(res_indices, arr_indices, count)\<close>.
\<close>

fun build_indices ::
  "nat \<Rightarrow> nat list \<Rightarrow> index list \<times> index list \<times> nat \<Rightarrow> index list \<times> index list \<times> nat" where
  "build_indices axis [] st = st"
| "build_indices axis (i # is) (res_indices, arr_indices, count) =
     (if i = axis
      then build_indices axis is (res_indices, arr_indices @ [I], count)
      else build_indices axis is
             (res_indices @ [IdxArr count], arr_indices @ [IdxArr count], count + 1))"

definition create_axis_reducer ::
  "scalar_op \<Rightarrow> number \<Rightarrow> int \<Rightarrow> nat \<Rightarrow> dtype \<Rightarrow> bool \<Rightarrow> error + careduce_axis" where
  "create_axis_reducer scalar_op identity axis nd dt keepdims =
     bind (normalize_axis_index axis nd) (\<lambda>axis.
       let identity = identity_source identity in
       if nd > 1 then
         (case build_indices axis [0..<nd] ([], [], 0) of
            (res_indices, arr_indices, count) \<Rightarrow>
              bind (scalar_in_place_fn scalar_op) (\<lambda>inplace_update_statement.
                Inr (ReduceND axis (nd - 1) identity res_indices arr_indices
                       inplace_update_statement dt keepdims)))
       else
         bind (scalar_in_place_fn scalar_op) (\<lambda>inplace_update_statement.
           Inr (Reduce1D axis identity inplace_update_statement dt keepdims)))"

subsection \<open>Running a generated reducer\<close>

text \<open>\<open>res_shape_tuple_ctor\<close>: \<open>shape[i] if i < axis else shape[i + 1]\<close> for \<open>i < n\<close>.\<close>

definition res_shape_tuple_ctor :: "nat \<Rightarrow> nat \<Rightarrow> nat list \<Rightarrow> nat list" where
  "res_shape_tuple_ctor axis n sh = map (\<lambda>i. if i < axis then sh ! i else sh ! (i + 1)) [0..<n]"

fun eval_index :: "nat list \<Rightarrow> nat \<Rightarrow> index \<Rightarrow> nat" where
  "eval_index idx_arr i (IdxArr k) = idx_arr ! k"
| "eval_index idx_arr i I = i"

text \<open>
  The inner loop for one result cell: \<open>for i in range(axis_shape)\<close>, the update
  statement on \<open>res[res_indices]\<close> and \<open>x[arr_indices]\<close>. It returns the updated \<open>res\<close>.
\<close>

definition reduce_cell ::
  "'a arith \<Rightarrow> dtype \<Rightarrow> stmt \<Rightarrow> index list \<Rightarrow> index list \<Rightarrow> nat list \<Rightarrow> 'a list \<Rightarrow>
   nat list \<Rightarrow> nat \<Rightarrow> nat list \<Rightarrow> 'a list \<Rightarrow> error + 'a list" where
  "reduce_cell A out_dtype s res_indices arr_indices x_shape x res_shape axis_shape idx_arr res =
     (let p = ravel res_shape (map (eval_index idx_arr 0) res_indices) in
      bind (fold_axis A out_dtype s 0 (res ! p)
              (map (\<lambda>i. x ! ravel x_shape (map (eval_index idx_arr i) arr_indices))
                 [0..<axis_shape]))
        (\<lambda>v. Inr (res[p := v])))"

text \<open>The outer loop \<open>for idx_arr in np.ndindex(res_shape)\<close>.\<close>

fun reduce_cells ::
  "'a arith \<Rightarrow> dtype \<Rightarrow> stmt \<Rightarrow> index list \<Rightarrow> index list \<Rightarrow> nat list \<Rightarrow> 'a list \<Rightarrow>
   nat list \<Rightarrow> nat \<Rightarrow> nat list list \<Rightarrow> 'a list \<Rightarrow> error + 'a list" where
  "reduce_cells A out_dtype s ri ai x_shape x res_shape axis_shape [] res = Inr res"
| "reduce_cells A out_dtype s ri ai x_shape x res_shape axis_shape (idx_arr # rest) res =
     bind (reduce_cell A out_dtype s ri ai x_shape x res_shape axis_shape idx_arr res)
       (reduce_cells A out_dtype s ri ai x_shape x res_shape axis_shape rest)"

text \<open>\<open>np.expand_dims(res, axis)\<close>.\<close>

definition expand_dims :: "nat list \<Rightarrow> nat \<Rightarrow> nat list" where
  "expand_dims sh axis = take axis sh @ [1] @ drop axis sh"

text \<open>
  A call of the compiled \<open>careduce_axis\<close>. The function is typed for arrays of the rank
  it was generated for; any other argument is a \<open>TypeError\<close>. \<open>np.full\<close> fills
  \<open>res\<close>, an array of the element type \<open>out_dtype\<close>, with the identity converted to
  that type, and every update is stored into it.
\<close>

fun run_axis_reducer :: "'a arith \<Rightarrow> careduce_axis \<Rightarrow> 'a val \<Rightarrow> error + 'a val" where
  "run_axis_reducer A (ReduceND axis n identity ri ai s out_dtype keepdims) (Array x_shape x) =
     (if length x_shape \<noteq> n + 1 then Inl TypeError
      else
        let res_shape = res_shape_tuple_ctor axis n x_shape in
        bind (literal A identity) (\<lambda>v.
        bind (store A out_dtype v) (\<lambda>v.
        bind (reduce_cells A out_dtype s ri ai x_shape x res_shape (x_shape ! axis)
                (ndindex res_shape) (replicate (prod_list res_shape) v)) (\<lambda>res.
          Inr (Array (if keepdims then expand_dims res_shape axis else res_shape) res)))))"
| "run_axis_reducer A (Reduce1D axis identity s out_dtype keepdims) (Array x_shape x) =
     (if length x_shape \<noteq> 1 then Inl TypeError
      else
        bind (literal A identity) (\<lambda>v.
        bind (store A out_dtype v) (\<lambda>v.
        bind (fold_axis A out_dtype s 0 v (map (\<lambda>i. x ! i) [0..<x_shape ! axis])) (\<lambda>r.
          Inr (if keepdims then Array [1] [r] else Scalar r)))))"
| "run_axis_reducer A k (Scalar v) = Inl TypeError"

section \<open>The multi-axis reducer\<close>

text \<open>
  What \<open>create_multiaxis_reducer\<close> returns: the single-axis reducer itself for one axis,
  otherwise the generated \<open>careduce\<close> function, a chain of calls of the stage reducers,
  each on the result of the one before.
\<close>

datatype careduce = AxisReducer careduce_axis | Composed "careduce_axis list"

text \<open>
  The loop over \<open>enumerate(to_reduce)\<close>: one reducer per axis, built for the rank left
  by the stages before it.
\<close>

fun build_stages ::
  "scalar_op \<Rightarrow> number \<Rightarrow> nat list \<Rightarrow> nat \<Rightarrow> dtype \<Rightarrow> error + careduce_axis list" where
  "build_stages scalar_op identity [] nd dt = Inr []"
| "build_stages scalar_op identity (axis # to_reduce) nd dt =
     bind (create_axis_reducer scalar_op identity (int axis) nd dt False) (\<lambda>reducer_py_fn.
     bind (build_stages scalar_op identity to_reduce (nd - 1) dt) (\<lambda>rest.
       Inr (reducer_py_fn # rest)))"

definition create_multiaxis_reducer ::
  "scalar_op \<Rightarrow> number \<Rightarrow> int list \<Rightarrow> nat \<Rightarrow> dtype \<Rightarrow> error + careduce" where
  "create_multiaxis_reducer scalar_op identity axes nd dt =
     (if length axes = 1
      then bind (create_axis_reducer scalar_op identity (axes ! 0) nd dt False)
             (\<lambda>r. Inr (AxisReducer r))
      else
        bind (normalize_axis_tuple axes nd) (\<lambda>axes.
          let to_reduce = rev (sort axes) in
          bind (build_stages scalar_op identity to_reduce nd dt) (\<lambda>stages.
            Inr (Composed stages))))"

fun run_stages :: "'a arith \<Rightarrow> careduce_axis list \<Rightarrow> 'a val \<Rightarrow> error + 'a val" where
  "run_stages A [] var = Inr var"
| "run_stages A (k # ks) var = bind (run_axis_reducer A k var) (run_stages A ks)"

fun run_careduce :: "'a arith \<Rightarrow> careduce \<Rightarrow> 'a val \<Rightarrow> error + 'a val" where
  "run_careduce A (AxisReducer k) x = run_axis_reducer A k x"
| "run_careduce A (Composed ks) x = run_stages A ks x"

section \<open>Graph nodes\<close>

text \<open>
  What the builders read of a tensor type: its dtype, its rank and its static shape (an
  entry is \<open>None\<close> when the length is not known). A node has input and output types.
\<close>

record tensor_type =
  ty_dtype :: dtype
  ty_ndim :: nat
  ty_shape :: "nat option list"

record apply_node =
  inputs :: "tensor_type list"
  outputs :: "tensor_type list"

text \<open>Python's \<open>xs[i]\<close> for a non-negative \<open>i\<close>.\<close>

definition getitem :: "'a list \<Rightarrow> nat \<Rightarrow> error + 'a" where
  "getitem xs i = (if i < length xs then Inr (xs ! i) else Inl IndexError)"

section \<open>Reductions: \<open>numba_funcify_CAReduce\<close>\<close>

text \<open>
  The reduction operator: its scalar operator, that operator's \<open>identity\<close> attribute,
  its \<open>axis\<close> and its \<open>acc_dtype\<close> (\<open>None\<close> when absent or unset).
\<close>

record careduce_op =
  co_scalar_op :: scalar_op
  co_identity :: number
  co_axis :: "int list option"
  co_acc_dtype :: "dtype option"

definition isfinite :: "number \<Rightarrow> bool" where
  "isfinite v = (v \<noteq> Inf \<and> v \<noteq> NegInf \<and> v \<noteq> NaN)"

definition isposinf :: "number \<Rightarrow> bool" where
  "isposinf v = (v = Inf)"

text \<open>\<open>np.iinfo\<close> of an integer dtype: \<open>(min, max)\<close>; a \<open>ValueError\<close> for any other.\<close>

definition iinfo :: "dtype \<Rightarrow> error + int \<times> int" where
  "iinfo dt =
     (case dt of
        DType KInt bits \<Rightarrow> Inr (- (2 ^ (bits - 1)), 2 ^ (bits - 1) - 1)
      | DType KUInt bits \<Rightarrow> Inr (0, 2 ^ bits - 1)
      | _ \<Rightarrow> Inl ValueError)"

text \<open>
  \<open>np.array(v, dtype=dt)\<close> for a scalar \<open>v\<close>: the value as an element of the dtype. An
  infinity has no integer value (\<open>OverflowError\<close>), not-a-number has none either
  (\<open>ValueError\<close>), and an integer outside the range of an integer dtype is an
  \<open>OverflowError\<close>. Floats are exact here: no rounding.
\<close>

definition number_to_int :: "number \<Rightarrow> error + int" where
  "number_to_int v =
     (case v of
        BoolVal b \<Rightarrow> Inr (if b then 1 else 0)
      | IntVal n \<Rightarrow> Inr n
      | FloatVal n \<Rightarrow> Inr n
      | Inf \<Rightarrow> Inl OverflowError
      | NegInf \<Rightarrow> Inl OverflowError
      | NaN \<Rightarrow> Inl ValueError)"

definition np_array :: "number \<Rightarrow> dtype \<Rightarrow> error + number" where
  "np_array v dt =
     (case dtype_kind dt of
        KFloat \<Rightarrow>
          (case v of
             BoolVal b \<Rightarrow> Inr (FloatVal (if b then 1 else 0))
           | IntVal n \<Rightarrow> Inr (FloatVal n)
           | _ \<Rightarrow> Inr v)
      | KBool \<Rightarrow>
          (case v of
             BoolVal b \<Rightarrow> Inr (BoolVal b)
           | IntVal n \<Rightarrow> Inr (BoolVal (n \<noteq> 0))
           | FloatVal n \<Rightarrow> Inr (BoolVal (n \<noteq> 0))
           | _ \<Rightarrow> Inr (BoolVal True))
      | _ \<Rightarrow>
          bind (number_to_int v) (\<lambda>n.
          bind (iinfo dt) (\<lambda>(lo, hi).
            if lo \<le> n \<and> n \<le> hi then Inr (IntVal n) else Inl OverflowError)))"

text \<open>
  Compilation keeps the meaning of the function it compiles; the fast-math option it
  compiles with is the \<open>fast_math\<close> of the arithmetic the kernel is run in.
\<close>

definition jit_compile_reducer :: "apply_node \<Rightarrow> 'k \<Rightarrow> 'k" where
  "jit_compile_reducer node fn = fn"

definition numba_funcify_CAReduce :: "careduce_op \<Rightarrow> apply_node \<Rightarrow> error + careduce" where
  "numba_funcify_CAReduce op node =
     bind (getitem (inputs node) 0) (\<lambda>input.
       let axes = (case co_axis op of
                     None \<Rightarrow> map int [0..<ty_ndim input]
                   | Some axes \<Rightarrow> axes)
       in
       bind (getitem (outputs node) 0) (\<lambda>output.
         let np_acc_dtype = (case co_acc_dtype op of
                               Some acc_dtype \<Rightarrow> acc_dtype
                             | None \<Rightarrow> ty_dtype output);
             scalar_op_identity = co_identity op
         in
         bind (if dtype_kind np_acc_dtype = KInt \<and> \<not> isfinite scalar_op_identity
               then bind (iinfo np_acc_dtype) (\<lambda>(lo, hi).
                      if isposinf scalar_op_identity then Inr (IntVal hi)
                      else Inr (IntVal lo))
               else Inr scalar_op_identity) (\<lambda>scalar_op_identity.
         bind (np_array scalar_op_identity np_acc_dtype) (\<lambda>scalar_op_identity.
         bind (create_multiaxis_reducer (co_scalar_op op) scalar_op_identity axes
                 (ty_ndim input) (ty_dtype output)) (\<lambda>careduce_py_fn.
           Inr (jit_compile_reducer node careduce_py_fn))))))"

text \<open>The identity literals spliced into the stages of a reduction kernel.\<close>

fun identity_of :: "careduce_axis \<Rightarrow> ident_src" where
  "identity_of (ReduceND axis n identity ri ai s dt keepdims) = identity"
| "identity_of (Reduce1D axis identity s dt keepdims) = identity"

text \<open>The element type of the array a stage accumulates in.\<close>

fun dtype_of :: "careduce_axis \<Rightarrow> dtype" where
  "dtype_of (ReduceND axis n identity ri ai s dt keepdims) = dt"
| "dtype_of (Reduce1D axis identity s dt keepdims) = dt"

fun stages_of :: "careduce \<Rightarrow> careduce_axis list" where
  "stages_of (AxisReducer k) = [k]"
| "stages_of (Composed ks) = ks"

section \<open>Elementwise kernels\<close>

text \<open>
  A scalar function of \<open>n\<close> positional arguments, and the vectorised function made of
  it: it keeps the scalar function as \<open>py_scalar_func\<close>.
\<close>

datatype 'a scalar_fn = ScalarFn nat "'a list \<Rightarrow> 'a"

datatype 'a ufunc = UFunc "'a scalar_fn"

definition create_vectorize_func ::
  "'a scalar_fn \<Rightarrow> apply_node \<Rightarrow> bool \<Rightarrow> number option \<Rightarrow> error + 'a ufunc" where
  "create_vectorize_func scalar_op_fn node use_signature identity =
     (if length (outputs node) > 1
      then Inl (NotImplementedError
                  ''Multi-output Elemwise Ops are not supported by the Numba backend'')
      else Inr (UFunc scalar_op_fn))"

subsection \<open>Calling a vectorised function\<close>

fun shape_of :: "'a val \<Rightarrow> nat list" where
  "shape_of (Scalar v) = []"
| "shape_of (Array sh d) = sh"

fun data_of :: "'a val \<Rightarrow> 'a list" where
  "data_of (Scalar v) = [v]"
| "data_of (Array sh d) = d"

text \<open>
  Broadcasting of two shapes, read from their last dimension: equal lengths agree, a
  length of 1 stretches, anything else is a \<open>ValueError\<close>.
\<close>

fun broadcast_rev :: "nat list \<Rightarrow> nat list \<Rightarrow> error + nat list" where
  "broadcast_rev [] ys = Inr ys"
| "broadcast_rev xs [] = Inr xs"
| "broadcast_rev (x # xs) (y # ys) =
     (if x = y \<or> y = 1 then bind (broadcast_rev xs ys) (\<lambda>r. Inr (x # r))
      else if x = 1 then bind (broadcast_rev xs ys) (\<lambda>r. Inr (y # r))
      else Inl ValueError)"

fun broadcast_shapes :: "nat list list \<Rightarrow> error + nat list" where
  "broadcast_shapes [] = Inr []"
| "broadcast_shapes (sh # shs) =
     bind (broadcast_shapes shs) (\<lambda>r.
     bind (broadcast_rev (rev sh) (rev r)) (\<lambda>b. Inr (rev b)))"

text \<open>
  The element of an operand met at an index of the broadcast shape: the operand's own
  trailing dimensions, with index 0 along a stretched dimension.
\<close>

definition broadcast_get :: "'a val \<Rightarrow> nat list \<Rightarrow> 'a" where
  "broadcast_get x idx =
     (let sh = shape_of x;
          own = drop (length idx - length sh) idx
      in data_of x ! ravel sh (map (\<lambda>(n, i). if n = 1 then 0 else i) (zip sh own)))"

text \<open>
  A call with one argument per parameter computes a new result, a bare scalar when its
  rank is 0. A call with one more argument writes the result into that array, whose shape
  must be the broadcast shape, and returns the array.
\<close>

definition call_ufunc :: "'a ufunc \<Rightarrow> 'a val list \<Rightarrow> error + 'a val" where
  "call_ufunc u args =
     (case u of UFunc (ScalarFn nin f) \<Rightarrow>
        if length args = nin then
          bind (broadcast_shapes (map shape_of args)) (\<lambda>sh.
            let d = map (\<lambda>idx. f (map (\<lambda>x. broadcast_get x idx) args)) (ndindex sh)
            in if sh = [] then Inr (Scalar (d ! 0)) else Inr (Array sh d))
        else if length args = nin + 1 then
          (case last args of
             Scalar v \<Rightarrow> Inl TypeError
           | Array osh od \<Rightarrow>
               bind (broadcast_shapes (map shape_of args)) (\<lambda>sh.
                 if sh \<noteq> osh then Inl ValueError
                 else Inr (Array osh
                        (map (\<lambda>idx. f (map (\<lambda>x. broadcast_get x idx) (butlast args)))
                           (ndindex osh)))))
        else Inl TypeError)"

definition asarray :: "'a val \<Rightarrow> 'a val" where
  "asarray x = (case x of Scalar v \<Rightarrow> Array [] [v] | Array sh d \<Rightarrow> Array sh d)"

text \<open>\<open>item()\<close>: the element of an array of exactly one element.\<close>

definition item :: "'a val \<Rightarrow> error + 'a" where
  "item x =
     (case x of
        Scalar v \<Rightarrow> Inr v
      | Array sh d \<Rightarrow> (case d of [v] \<Rightarrow> Inr v | _ \<Rightarrow> Inl ValueError))"

subsection \<open>\<open>numba_funcify_Elemwise\<close>\<close>

text \<open>
  The elementwise operator: the scalar function its scalar operator compiles to, and its
  \<open>inplace_pattern\<close>, a dictionary from output positions to input positions.
\<close>

record 'a elemwise_op =
  eo_scalar_op_fn :: "'a scalar_fn"
  eo_inplace_pattern :: "(nat \<times> nat) list"

text \<open>
  The kernel returned: the vectorised function itself, or one of the two generated
  wrappers around it, for an array target and for a scalar target. A wrapper has the
  parameters of the scalar function and updates the one at \<open>input_idx\<close>.
\<close>

datatype 'a elemwise_kernel =
    Vectorized "'a ufunc"
  | InplaceArray "'a ufunc" nat nat
  | InplaceScalar "'a ufunc" nat nat

definition numba_funcify_Elemwise ::
  "'a elemwise_op \<Rightarrow> apply_node \<Rightarrow> error + 'a elemwise_kernel" where
  "numba_funcify_Elemwise op node =
     bind (create_vectorize_func (eo_scalar_op_fn op) node False None) (\<lambda>elemwise_fn.
       if eo_inplace_pattern op \<noteq> [] then
         (case map_of (eo_inplace_pattern op) 0 of
            None \<Rightarrow> Inl KeyError
          | Some input_idx \<Rightarrow>
              (case elemwise_fn of UFunc (ScalarFn n_names f) \<Rightarrow>
                 if \<not> input_idx < n_names then Inl IndexError
                 else
                   bind (getitem (inputs node) input_idx) (\<lambda>input.
                     if ty_ndim input > 0
                     then Inr (InplaceArray elemwise_fn n_names input_idx)
                     else Inr (InplaceScalar elemwise_fn n_names input_idx))))
       else Inr (Vectorized elemwise_fn))"

text \<open>
  A call of the kernel: the value returned and the arguments as they are after the call.
  The array wrapper passes its target as the output array, so the target holds the result
  afterwards. The scalar wrapper passes \<open>np.asarray\<close> of its target and returns the
  \<open>item()\<close> of the result. \<open>np.asarray\<close> of a bare scalar is a new array, and the
  target is as before; \<open>np.asarray\<close> of an array is that array, the vectorised function
  writes into it, and the target holds the result afterwards.
\<close>

definition run_elemwise ::
  "'a elemwise_kernel \<Rightarrow> 'a val list \<Rightarrow> error + 'a val \<times> 'a val list" where
  "run_elemwise k args =
     (case k of
        Vectorized u \<Rightarrow> bind (call_ufunc u args) (\<lambda>r. Inr (r, args))
      | InplaceArray u n input_idx \<Rightarrow>
          if length args \<noteq> n then Inl TypeError
          else bind (call_ufunc u (args @ [args ! input_idx])) (\<lambda>r.
                 Inr (r, args[input_idx := r]))
      | InplaceScalar u n input_idx \<Rightarrow>
          if length args \<noteq> n then Inl TypeError
          else
            let updated_scalar = asarray (args ! input_idx) in
            bind (call_ufunc u (args @ [updated_scalar])) (\<lambda>r.
            bind (item r) (\<lambda>v.
              Inr (Scalar v,
                   case args ! input_idx of
                     Scalar _ \<Rightarrow> args
                   | Array _ _ \<Rightarrow> args[input_idx := r]))))"

section \<open>Transposition and reshaping\<close>

text \<open>The first position of an element in a list.\<close>

fun index_of :: "'a list \<Rightarrow> 'a \<Rightarrow> nat" where
  "index_of [] y = 0"
| "index_of (x # xs) y = (if x = y then 0 else Suc (index_of xs y))"

text \<open>
  The index into the source array of the element found at \<open>idx\<close> in the transposed
  array: dimension \<open>k\<close> of the result is dimension \<open>perm ! k\<close> of the source.
\<close>

definition source_index :: "nat list \<Rightarrow> nat list \<Rightarrow> nat list" where
  "source_index perm idx = map (\<lambda>j. idx ! index_of perm j) [0..<length perm]"

text \<open>
  \<open>np.transpose(x, axes)\<close>: the axes are as many as the dimensions, each is normalised,
  and none may be repeated.
\<close>

definition np_transpose :: "'a val \<Rightarrow> int list \<Rightarrow> error + 'a val" where
  "np_transpose x axes =
     (case x of
        Scalar v \<Rightarrow> Inl TypeError
      | Array sh d \<Rightarrow>
          if length axes \<noteq> length sh then Inl ValueError
          else bind (normalize_axis_tuple axes (length sh)) (\<lambda>perm.
                 let new_shape = map (\<lambda>k. sh ! k) perm in
                 Inr (Array new_shape
                        (map (\<lambda>idx. d ! ravel sh (source_index perm idx))
                           (ndindex new_shape)))))"

text \<open>\<open>np.reshape\<close> of an array in C order: the elements stay, the shape changes.\<close>

definition np_reshape :: "'a val \<Rightarrow> nat list \<Rightarrow> error + 'a val" where
  "np_reshape x new_shape =
     (case x of
        Scalar v \<Rightarrow> Inl TypeError
      | Array sh d \<Rightarrow>
          if prod_list new_shape = length d then Inr (Array new_shape d)
          else Inl ValueError)"

section \<open>\<open>numba_funcify_DimShuffle\<close>\<close>

record dimshuffle_op =
  ds_shuffle :: "nat list"
  ds_transposition :: "nat list"
  ds_augment :: "nat list"
  ds_inplace :: bool

text \<open>The closures the builder chooses among.\<close>

datatype transpose_fn = PassThrough | Transpose "nat list"

datatype find_shape_fn =
    StaticShape "nat list"
  | ComputeShape "nat list" nat "nat list"
  | TemplateShape "nat list"

datatype dimshuffle_kernel =
    DimshuffleReshape transpose_fn find_shape_fn nat bool
  | DimshuffleItem

definition numba_funcify_DimShuffle ::
  "dimshuffle_op \<Rightarrow> apply_node \<Rightarrow> error + dimshuffle_kernel" where
  "numba_funcify_DimShuffle op node =
     (let shuffle = ds_shuffle op;
          transposition = ds_transposition op;
          augment = ds_augment op;
          inplace = ds_inplace op;
          ndim_new_shape = length shuffle + length augment;
          no_transpose = list_all (\<lambda>(i, j). i = j) (enumerate 0 transposition);
          transpose = (if no_transpose then PassThrough else Transpose transposition);
          shape_template = replicate ndim_new_shape 1
      in
      bind (if length shuffle > 0 then
              bind (getitem (outputs node) 0) (\<lambda>output.
                if list_all (\<lambda>l. l \<noteq> None) (ty_shape output)
                then Inr (StaticShape (map the (ty_shape output)))
                else Inr (ComputeShape shape_template ndim_new_shape augment))
            else Inr (TemplateShape shape_template)) (\<lambda>find_shape.
        if ndim_new_shape > 0
        then Inr (DimshuffleReshape transpose find_shape (length shuffle) inplace)
        else Inr DimshuffleItem))"

text \<open>
  The loop of the computed \<open>find_shape\<close>: the positions not in \<open>augment\<close> take the
  lengths of \<open>array_shape\<close> in order.
\<close>

fun find_shape_loop ::
  "nat list \<Rightarrow> nat list \<Rightarrow> nat list \<Rightarrow> nat \<Rightarrow> nat list \<Rightarrow> error + nat list" where
  "find_shape_loop augment array_shape [] j shape = Inr shape"
| "find_shape_loop augment array_shape (i # is) j shape =
     (if i \<notin> set augment
      then bind (getitem array_shape j) (\<lambda>l.
             find_shape_loop augment array_shape is (j + 1) (shape[i := l]))
      else find_shape_loop augment array_shape is j shape)"

fun find_shape :: "find_shape_fn \<Rightarrow> nat list \<Rightarrow> error + nat list" where
  "find_shape (StaticShape shape) array_shape = Inr shape"
| "find_shape (ComputeShape shape_template ndim_new_shape augment) array_shape =
     find_shape_loop augment array_shape [0..<ndim_new_shape] 0 shape_template"
| "find_shape (TemplateShape shape_template) array_shape = Inr shape_template"

fun transpose :: "transpose_fn \<Rightarrow> 'a val \<Rightarrow> error + 'a val" where
  "transpose PassThrough x = Inr x"
| "transpose (Transpose transposition) x = np_transpose x (map int transposition)"

text \<open>
  A call of the kernel. The copy made when the operator is not in place has the value
  of what it copies.
\<close>

fun run_dimshuffle :: "dimshuffle_kernel \<Rightarrow> 'a val \<Rightarrow> error + 'a val" where
  "run_dimshuffle (DimshuffleReshape tr fs n_shuffle inplace) x =
     bind (transpose tr (asarray x)) (\<lambda>x.
       let shuffle_shape = take n_shuffle (shape_of x) in
       bind (find_shape fs shuffle_shape) (\<lambda>new_shape.
         np_reshape x new_shape))"
| "run_dimshuffle DimshuffleItem x = bind (item (asarray x)) (\<lambda>v. Inr (Scalar v))"

section \<open>\<open>numba_funcify_MaxAndArgmax\<close>\<close>

text \<open>
  NumPy's \<open>argmax\<close> of a row: the position of the first greatest element, or of the
  first not-a-number; a \<open>ValueError\<close> on an empty row. The state of the scan is the
  position and the value of the best element so far. The function that calls it is
  compiled with no fast-math option, so its comparisons are the plain ones.
\<close>

fun argmax_loop :: "'a arith \<Rightarrow> 'a list \<Rightarrow> nat \<Rightarrow> nat \<Rightarrow> 'a \<Rightarrow> nat" where
  "argmax_loop A [] j best bv = best"
| "argmax_loop A (x # xs) j best bv =
     (if \<not> compare A Eq bv bv then best
      else if \<not> (compare A Lt x bv \<or> compare A Eq x bv)
      then argmax_loop A xs (j + 1) j x
      else argmax_loop A xs (j + 1) best bv)"

fun argmax :: "'a arith \<Rightarrow> 'a list \<Rightarrow> error + nat" where
  "argmax A [] = Inl ValueError"
| "argmax A (x # xs) = Inr (argmax_loop A xs 1 0 x)"

text \<open>The function \<open>create_axis_apply_fn\<close> builds for \<open>argmax\<close>: its axis order.\<close>

datatype axis_apply = AxisApply "nat list"

definition create_axis_apply_fn :: "int \<Rightarrow> nat \<Rightarrow> error + axis_apply" where
  "create_axis_apply_fn axis nd =
     bind (normalize_axis_index axis nd) (\<lambda>axis.
       Inr (AxisApply (filter (\<lambda>i. i \<noteq> axis) [0..<nd] @ [axis])))"

text \<open>
  A call of \<open>axis_apply_fn\<close>: the axis is moved last, and every row along it gives one
  element of the result, an array of the leading shape.
\<close>

definition run_axis_apply :: "'a arith \<Rightarrow> axis_apply \<Rightarrow> 'a val \<Rightarrow> error + nat val" where
  "run_axis_apply A k x =
     (case k of AxisApply reaxis_first \<Rightarrow>
        bind (np_transpose x (map int reaxis_first)) (\<lambda>x_reaxis.
          case shape_of x_reaxis of
            [] \<Rightarrow> Inl TypeError
          | sh \<Rightarrow>
              let res_shape = butlast sh; n = last sh in
              bind (sequence
                      (map (\<lambda>m. argmax A (take n (drop (ravel res_shape m * n)
                                                    (data_of x_reaxis))))
                         (ndindex res_shape)))
                (\<lambda>res. Inr (Array res_shape res))))"

record maxandargmax_op =
  mo_axis :: "int list"

text \<open>
  The kernel: the one for a rank-0 input, or the general one with its maximum reducer,
  its row-wise \<open>argmax\<close>, the axis order \<open>keep_axes + axes\<close> and the number of kept axes.
\<close>

datatype maxandargmax_kernel =
    MaxAndArgmaxScalar
  | MaxAndArgmaxGeneral careduce axis_apply "int list" nat

definition numba_funcify_MaxAndArgmax ::
  "maxandargmax_op \<Rightarrow> apply_node \<Rightarrow> error + maxandargmax_kernel" where
  "numba_funcify_MaxAndArgmax op node =
     (let axis = mo_axis op in
      bind (getitem (inputs node) 0) (\<lambda>x_at.
        let x_dtype = ty_dtype x_at; x_ndim = ty_ndim x_at in
        if x_ndim = 0 then Inr MaxAndArgmaxScalar
        else
          let axes = axis;
              keep_axes = filter (\<lambda>i. int i \<notin> set axes) [0..<x_ndim]
          in
          bind (create_multiaxis_reducer ScalarMaximum NegInf axes x_ndim x_dtype)
            (\<lambda>reduce_max_py_fn.
              let reduce_max = jit_compile_reducer node reduce_max_py_fn;
                  reduced_x_ndim = int x_ndim - int (length axes) + 1
              in
              bind (create_axis_apply_fn (reduced_x_ndim - 1) (nat reduced_x_ndim))
                (\<lambda>argmax_axis.
                  Inr (MaxAndArgmaxGeneral reduce_max argmax_axis
                         (map int keep_axes @ axes) (length keep_axes))))))"

definition run_maxandargmax ::
  "'a arith \<Rightarrow> maxandargmax_kernel \<Rightarrow> 'a val \<Rightarrow> error + 'a val \<times> nat val" where
  "run_maxandargmax A k x =
     (case k of
        MaxAndArgmaxScalar \<Rightarrow> Inr (x, Scalar 0)
      | MaxAndArgmaxGeneral reduce_max argmax_axis reaxis_order n_keep \<Rightarrow>
          bind (run_careduce A reduce_max x) (\<lambda>max_res.
          bind (np_transpose x reaxis_order) (\<lambda>transposed_x.
            let kept_shape = take n_keep (shape_of transposed_x);
                reduced_shape = drop n_keep (shape_of transposed_x);
                reduced_size = foldl (\<lambda>reduced_size s. reduced_size * s) 1 reduced_shape;
                new_shape = kept_shape @ [reduced_size]
            in
            bind (np_reshape transposed_x new_shape) (\<lambda>reshaped_x.
            bind (run_axis_apply A argmax_axis reshaped_x) (\<lambda>max_idx_res.
              Inr (max_res, max_idx_res))))))"

text \<open>The axis a stage reduces.\<close>

fun axis_of :: "careduce_axis \<Rightarrow> nat" where
  "axis_of (ReduceND axis n identity ri ai s dt keepdims) = axis"
| "axis_of (Reduce1D axis identity s dt keepdims) = axis"

section \<open>Dimshuffle operators and their inverses\<close>

text \<open>
  Modelled from the spec: the attributes of a DimShuffle operator, whose class is not
  among the sources. The operator is given by the rank of its input and its new order:
  for each axis of the result the input axis it shows (\<open>Some\<close>) or \<open>None\<close> for an inserted
  axis of length 1. \<open>shuffle\<close> lists the input axes kept, in result order;
  \<open>transposition\<close> puts them first and the dropped axes after them; \<open>augment\<close> lists the
  inserted positions.
\<close>

definition kept_axes :: "nat option list \<Rightarrow> nat list" where
  "kept_axes new_order = map the (filter (\<lambda>e. e \<noteq> None) new_order)"

definition dropped_axes :: "nat \<Rightarrow> nat option list \<Rightarrow> nat list" where
  "dropped_axes n new_order = filter (\<lambda>a. Some a \<notin> set new_order) [0..<n]"

definition inserted_axes :: "nat option list \<Rightarrow> nat list" where
  "inserted_axes new_order = filter (\<lambda>p. new_order ! p = None) [0..<length new_order]"

definition dimshuffle_op_of :: "nat \<Rightarrow> nat option list \<Rightarrow> bool \<Rightarrow> dimshuffle_op" where
  "dimshuffle_op_of n new_order inplace =
     \<lparr>ds_shuffle = kept_axes new_order,
      ds_transposition = kept_axes new_order @ dropped_axes n new_order,
      ds_augment = inserted_axes new_order,
      ds_inplace = inplace\<rparr>"

text \<open>A new order is valid for a rank when it shows each input axis at most once.\<close>

definition valid_order :: "nat \<Rightarrow> nat option list \<Rightarrow> bool" where
  "valid_order n new_order =
     (distinct (kept_axes new_order) \<and> list_all (\<lambda>a. a < n) (kept_axes new_order))"

text \<open>
  The inverse order: each input axis is found again where the new order shows it, and
  an axis the new order drops is inserted again.
\<close>

definition inverse_order :: "nat \<Rightarrow> nat option list \<Rightarrow> nat option list" where
  "inverse_order n new_order =
     map (\<lambda>a. if Some a \<in> set new_order then Some (index_of new_order (Some a)) else None)
       [0..<n]"

text \<open>The shape a new order gives to an array of shape \<open>sh\<close>.\<close>

definition shuffled_shape :: "nat list \<Rightarrow> nat option list \<Rightarrow> nat list" where
  "shuffled_shape sh new_order =
     map (\<lambda>e. case e of Some a \<Rightarrow> sh ! a | None \<Rightarrow> 1) new_order"

text \<open>
  The static shape of a node's output agrees with a shape when every length it knows is
  the length the shape has there.
\<close>

definition static_shape_agrees :: "apply_node \<Rightarrow> nat list \<Rightarrow> bool" where
  "static_shape_agrees node sh =
     (case outputs node of
        [] \<Rightarrow> False
      | output # _ \<Rightarrow>
          length (ty_shape output) = length sh \<and>
          list_all (\<lambda>(l, n). l = None \<or> l = Some n) (zip (ty_shape output) sh))"

text \<open>
  What a dimshuffle is to compute: the result has the shuffled shape, and its element at
  an index is the input's element at the index that takes, for each kept input axis, the
  entry of the result axis showing it, and 0 for a dropped axis.
\<close>

definition dimshuffle_index :: "nat \<Rightarrow> nat option list \<Rightarrow> nat list \<Rightarrow> nat list" where
  "dimshuffle_index n new_order idx =
     map (\<lambda>a. if Some a \<in> set new_order then idx ! index_of new_order (Some a) else 0)
       [0..<n]"

definition dimshuffled :: "nat list \<Rightarrow> 'a list \<Rightarrow> nat option list \<Rightarrow> 'a val" where
  "dimshuffled sh d new_order =
     Array (shuffled_shape sh new_order)
       (map (\<lambda>idx. d ! ravel sh (dimshuffle_index (length sh) new_order idx))
          (ndindex (shuffled_shape sh new_order)))"

section \<open>Basic facts\<close>

lemma bind_Inr [simp]: "bind (Inr v) f = f v"
  by (simp add: bind_def)

lemma bind_Inl [simp]: "bind (Inl e) f = Inl e"
  by (simp add: bind_def)

lemma bind_eq_Inr_iff: "bind m f = Inr y \<longleftrightarrow> (\<exists>v. m = Inr v \<and> f v = Inr y)"
  by (cases m) simp_all

lemma bind_eq_Inl_iff: "bind m f = Inl e \<longleftrightarrow> m = Inl e \<or> (\<exists>v. m = Inr v \<and> f v = Inl e)"
  by (cases m) simp_all

lemma ext_arith_simps [simp]:
  "binop (ext_arith fm) = ext_binop"
  "compare (ext_arith fm) = ext_compare"
  "from_int (ext_arith fm) = (\<lambda>n. Fin (of_int n))"
  "literal (ext_arith fm) = ext_literal"
  "store (ext_arith fm) = ext_store"
  "is_nan (ext_arith fm) = (\<lambda>x. x = Nan)"
  "fast_math (ext_arith fm) = fm"
  by (simp_all add: ext_arith_def)

lemma ext_binop_error:
  "ext_binop op a b = Inl e \<Longrightarrow> e = ZeroDivisionError \<or> e = TypeError"
  by (cases op; cases a; cases b)
     (auto simp: ext_binop_def ext_bitop_def split: if_splits ext.splits)

lemma ext_literal_error: "ext_literal l = Inl e \<Longrightarrow> e = NameError"
  by (auto simp: ext_literal_def split: ident_src.splits number.splits)

lemma ext_store_error: "ext_store dt x = Inl e \<Longrightarrow> e = Undefined"
  by (auto simp: ext_store_def split: dtype.splits kind.splits ext.splits if_splits)

lemma compiled_binop_ext_error:
  "compiled_binop (ext_arith fm) op a b = Inl e \<Longrightarrow>
     e = ZeroDivisionError \<or> e = TypeError \<or> e = Undefined"
  by (auto simp: compiled_binop_def bind_eq_Inl_iff split: if_splits dest: ext_binop_error)

lemma compiled_compare_ext_error:
  "compiled_compare (ext_arith fm) c a b = Inl e \<Longrightarrow> e = Undefined"
  by (auto simp: compiled_compare_def split: if_splits)

lemma eval_expr_ext_error:
  "eval_expr (ext_arith fm) i res arr e = Inl err \<Longrightarrow>
     err = ZeroDivisionError \<or> err = TypeError \<or> err = Undefined"
proof (induction e arbitrary: err)
  case (BinOp a op b)
  then show ?case
    by (auto simp: bind_eq_Inl_iff dest: compiled_binop_ext_error)
next
  case (IfExp body l c r orelse)
  then show ?case
    by (auto simp: bind_eq_Inl_iff split: if_splits dest: compiled_compare_ext_error)
qed simp_all

lemma exec_stmt_ext_error:
  "exec_stmt (ext_arith fm) dt i res arr s = Inl err \<Longrightarrow>
     err = ZeroDivisionError \<or> err = TypeError \<or> err = Undefined"
proof (induction s arbitrary: err)
  case (Assign e)
  then show ?case
    by (auto simp: bind_eq_Inl_iff dest: eval_expr_ext_error ext_store_error)
next
  case (AugAssign op e)
  then show ?case
    by (auto simp: bind_eq_Inl_iff
        dest: compiled_binop_ext_error eval_expr_ext_error ext_store_error)
next
  case (IfStmt l c r s)
  then show ?case
    by (auto simp: bind_eq_Inl_iff split: if_splits
        dest: eval_expr_ext_error compiled_compare_ext_error)
qed

lemma fold_axis_ext_error:
  "fold_axis (ext_arith fm) dt s i res xs = Inl err \<Longrightarrow>
     err = ZeroDivisionError \<or> err = TypeError \<or> err = Undefined"
proof (induction xs arbitrary: i res)
  case Nil
  then show ?case by simp
next
  case (Cons x xs)
  then show ?case
    by (auto simp: bind_eq_Inl_iff dest: exec_stmt_ext_error)
qed

lemma reduce_cells_ext_error:
  "reduce_cells (ext_arith fm) dt s ri ai xsh x rsh n idxs res = Inl err \<Longrightarrow>
     err = ZeroDivisionError \<or> err = TypeError \<or> err = Undefined"
proof (induction idxs arbitrary: res)
  case Nil
  then show ?case by simp
next
  case (Cons idx idxs)
  then show ?case
    by (auto simp: bind_eq_Inl_iff reduce_cell_def Let_def dest: fold_axis_ext_error)
qed

lemma run_axis_reducer_ext_error:
  "run_axis_reducer (ext_arith fm) k x = Inl err \<Longrightarrow>
     err = ZeroDivisionError \<or> err = TypeError \<or> err = NameError \<or> err = Undefined"
proof (cases k)
  case (ReduceND axis n identity ri ai s dt keepdims)
  assume "run_axis_reducer (ext_arith fm) k x = Inl err"
  with ReduceND show ?thesis
    by (cases x)
       (auto simp: bind_eq_Inl_iff Let_def
             split: if_splits
             dest: ext_literal_error ext_store_error reduce_cells_ext_error)
next
  case (Reduce1D axis identity s dt keepdims)
  assume "run_axis_reducer (ext_arith fm) k x = Inl err"
  with Reduce1D show ?thesis
    by (cases x)
       (auto simp: bind_eq_Inl_iff Let_def
             split: if_splits
             dest: ext_literal_error ext_store_error fold_axis_ext_error)
qed

lemma create_axis_reducer_unregistered:
  assumes "scalar_in_place_fn op = Inl e"
  shows "\<exists>e'. create_axis_reducer op identity axis nd dt keepdims = Inl e'"
  using assms
  by (cases "normalize_axis_index axis nd")
     (auto simp: create_axis_reducer_def Let_def split: prod.splits)

section \<open>The emitter rejects an unregistered operator\<close>

text \<open>
  C8. An operator with no registered fragment makes the emitter raise
  \<open>NotImplementedError\<close>, the error the specification calls UnsupportedOperator, and
  no fragment is returned. The error belongs to the build: every build of a single-axis
  reducer for such an operator fails, with this error whenever the axis is valid, so no
  kernel exists for it; and no call of a reducer kernel raises this error.
\<close>

theorem unsupported_operator_at_build_time:
  assumes "op \<notin> fst ` set registry"
  shows "scalar_in_place_fn op = Inl (NotImplementedError []) \<and>
         (\<forall>identity axis nd dt keepdims.
            \<exists>e. create_axis_reducer op identity axis nd dt keepdims = Inl e) \<and>
         (\<forall>identity axis nd dt keepdims a.
            normalize_axis_index axis nd = Inr a \<longrightarrow>
            create_axis_reducer op identity axis nd dt keepdims = Inl (NotImplementedError [])) \<and>
         (\<forall>fm k x m. run_axis_reducer (ext_arith fm) k x \<noteq> Inl (NotImplementedError m))"
proof -
  have emit: "scalar_in_place_fn op = Inl (NotImplementedError [])"
    using assms by (simp add: scalar_in_place_fn_def map_of_eq_None_iff[THEN iffD2])
  have build: "\<exists>e. create_axis_reducer op identity axis nd dt keepdims = Inl e"
    for identity axis nd dt keepdims
    using emit by (rule create_axis_reducer_unregistered)
  have build': "create_axis_reducer op identity axis nd dt keepdims = Inl (NotImplementedError [])"
    if "normalize_axis_index axis nd = Inr a" for identity axis nd dt keepdims a
    using emit that by (auto simp: create_axis_reducer_def Let_def split: prod.splits)
  have run: "run_axis_reducer (ext_arith fm) k x \<noteq> Inl (NotImplementedError m)" for fm k x m
    using run_axis_reducer_ext_error[of fm k x "NotImplementedError m"] by auto
  show ?thesis using emit build build' run by blast
qed

theorem unsupported_operator_witness:
  "OtherOp ''Pow'' \<notin> fst ` set registry \<and>
   scalar_in_place_fn (OtherOp ''Pow'') = Inl (NotImplementedError []) \<and>
   create_axis_reducer (OtherOp ''Pow'') (IntVal 0) 0 2 (DType KFloat 64) False
     = Inl (NotImplementedError [])"
proof -
  have h: "OtherOp ''Pow'' \<notin> fst ` set registry"
    by (simp add: registry_def)
  have n: "normalize_axis_index 0 2 = Inr 0"
    by (simp add: normalize_axis_index_def)
  from unsupported_operator_at_build_time[OF h] n h show ?thesis by blast
qed

section \<open>Multiplication without zeros\<close>

lemma ext_mul_not_Nan:
  "a \<noteq> Nan \<Longrightarrow> b \<noteq> Nan \<Longrightarrow> a \<noteq> Fin 0 \<Longrightarrow> b \<noteq> Fin 0 \<Longrightarrow> ext_mul a b \<noteq> Nan"
  by (cases a; cases b) (auto simp: ext_signed_inf_def)

lemma mul_without_zeros_eval:
  "eval_expr (ext_arith fm) i acc x
     (IfExp Arr Res Eq (Const 0) (IfExp Res Arr Eq (Const 0) (BinOp Res Times Arr))) =
     (if fm \<and> (acc = Nan \<or> (acc \<noteq> Fin 0 \<and> x = Nan)) then Inl Undefined
      else Inr (if acc = Fin 0 \<and> x = Fin 0 then acc
                else if acc = Fin 0 then x
                else if x = Fin 0 then acc
                else ext_mul acc x))"
proof (cases "acc = Nan \<or> x = Nan")
  case True
  then show ?thesis
    by (auto simp: compiled_compare_def compiled_binop_def ext_compare_def ext_binop_def)
next
  case False
  then have "acc \<noteq> Fin 0 \<Longrightarrow> x \<noteq> Fin 0 \<Longrightarrow> ext_mul acc x \<noteq> Nan"
    by (simp add: ext_mul_not_Nan)
  with False show ?thesis
    by (auto simp: compiled_compare_def compiled_binop_def ext_compare_def ext_binop_def)
qed

text \<open>
  C2, as the code has it. The fragment of \<open>MulWithoutZeros\<close> stores the operand when the
  accumulator is zero, which is the accumulator's own value when both are zero, stores
  the accumulator when only the operand is zero, and stores the product otherwise. What it
  stores is converted to the element type of the accumulator, so in an integer
  accumulator the product wraps. In a kernel compiled with fast-math there is no
  determined result when a value the fragment compares or multiplies is not-a-number:
  when the accumulator is, or when the operand is and the accumulator is not zero.
\<close>

theorem mul_without_zeros_update:
  "exec_stmt (ext_arith fm) dt i acc x scalar_in_place_fn_MulWithoutZeros =
     (if fm \<and> (acc = Nan \<or> (acc \<noteq> Fin 0 \<and> x = Nan)) then Inl Undefined
      else ext_store dt
             (if acc = Fin 0 \<and> x = Fin 0 then acc
              else if acc = Fin 0 then x
              else if x = Fin 0 then acc
              else ext_mul acc x))"
  unfolding scalar_in_place_fn_MulWithoutZeros_def exec_stmt.simps mul_without_zeros_eval
  by auto

theorem mul_without_zeros_witness:
  "exec_stmt (ext_arith True) (DType KFloat 64) 0 (Fin 0) (PInf :: rat ext)
     scalar_in_place_fn_MulWithoutZeros = Inr PInf \<and>
   exec_stmt (ext_arith True) (DType KFloat 64) 1 (Fin 2) (Fin (0 :: rat))
     scalar_in_place_fn_MulWithoutZeros = Inr (Fin 2) \<and>
   exec_stmt (ext_arith True) (DType KFloat 64) 2 (Fin 0) (Fin (0 :: rat))
     scalar_in_place_fn_MulWithoutZeros = Inr (Fin 0) \<and>
   exec_stmt (ext_arith True) (DType KFloat 64) 3 (Fin 2) (Fin (3 :: rat))
     scalar_in_place_fn_MulWithoutZeros = Inr (Fin 6) \<and>
   exec_stmt (ext_arith False) (DType KFloat 64) 4 Nan (Fin (0 :: rat))
     scalar_in_place_fn_MulWithoutZeros = Inr Nan \<and>
   exec_stmt (ext_arith True) (DType KInt 64) 5 (Fin 3) (Fin (4 :: rat))
     scalar_in_place_fn_MulWithoutZeros = Inr (Fin 12)"
  using mul_without_zeros_update[of True "DType KFloat 64" 0 "Fin 0" "PInf :: rat ext"]
    mul_without_zeros_update[of True "DType KFloat 64" 1 "Fin 2" "Fin (0 :: rat)"]
    mul_without_zeros_update[of True "DType KFloat 64" 2 "Fin 0" "Fin (0 :: rat)"]
    mul_without_zeros_update[of True "DType KFloat 64" 3 "Fin 2" "Fin (3 :: rat)"]
    mul_without_zeros_update[of False "DType KFloat 64" 4 Nan "Fin (0 :: rat)"]
    mul_without_zeros_update[of True "DType KInt 64" 5 "Fin 3" "Fin (4 :: rat)"]
  by (simp add: ext_store_def wrap_def)

text \<open>
  Where the claim fails as it is written. In a kernel compiled with fast-math the
  fragment has no determined result on an accumulator that is not-a-number and a zero
  operand, where the claim has the accumulator. In an accumulator of 8-bit integers the
  product of 100 and 2 is stored as \<open>-56\<close>.
\<close>

theorem mul_without_zeros_counterexample:
  "exec_stmt (ext_arith True) (DType KFloat 64) 0 Nan (Fin (0 :: rat))
     scalar_in_place_fn_MulWithoutZeros = Inl Undefined \<and>
   exec_stmt (ext_arith False) (DType KInt 8) 0 (Fin 100) (Fin (2 :: rat))
     scalar_in_place_fn_MulWithoutZeros = Inr (Fin (- 56))"
  by code_simp

section \<open>The running mean\<close>

lemma mean_step:
  "exec_stmt (ext_arith fm) dt i (Fin acc) (Fin x) scalar_in_place_fn_Mean =
     ext_store dt (Fin (acc + (x - acc) / (of_nat i + 1)))"
proof -
  have "(of_nat i :: 'a) + 1 \<noteq> 0"
    using of_nat_0_le_iff[of i, where 'a='a] by linarith
  then show ?thesis
    by (simp add: scalar_in_place_fn_Mean_def compiled_binop_def ext_binop_def)
qed

lemma float_store: "dtype_kind dt = KFloat \<Longrightarrow> ext_store dt x = Inr x"
  by (cases dt) (simp add: ext_store_def dtype_kind_def)

lemma mean_fold:
  assumes "dtype_kind dt = KFloat"
  shows "fold_axis (ext_arith fm) dt scalar_in_place_fn_Mean i (Fin acc) (map Fin xs) =
     Inr (Fin (if xs = [] then acc
               else (of_nat i * acc + sum_list xs) / of_nat (i + length xs)))"
proof (induction xs arbitrary: i acc)
  case Nil
  then show ?case by simp
next
  case (Cons x xs)
  have pos: "(of_nat i :: 'a) + 1 \<noteq> 0"
    using of_nat_0_le_iff[of i, where 'a='a] by linarith
  have step: "of_nat (Suc i) * (acc + (x - acc) / (of_nat i + 1)) = of_nat i * acc + x"
    using pos by (simp add: field_simps)
  have "fold_axis (ext_arith fm) dt scalar_in_place_fn_Mean i (Fin acc) (map Fin (x # xs)) =
      fold_axis (ext_arith fm) dt scalar_in_place_fn_Mean (Suc i)
        (Fin (acc + (x - acc) / (of_nat i + 1))) (map Fin xs)"
    by (simp add: mean_step float_store[OF assms])
  also have "\<dots> = Inr (Fin (if xs = [] then acc + (x - acc) / (of_nat i + 1)
      else (of_nat (Suc i) * (acc + (x - acc) / (of_nat i + 1)) + sum_list xs)
             / of_nat (Suc i + length xs)))"
    by (rule Cons.IH)
  also have "\<dots> =
      Inr (Fin ((of_nat i * acc + sum_list (x # xs)) / of_nat (i + length (x # xs))))"
  proof (cases "xs = []")
    case True
    have "acc + (x - acc) / (of_nat i + 1) = (of_nat i * acc + x) / (of_nat i + 1)"
      using pos by (simp add: field_simps)
    with True show ?thesis by (simp add: add.commute)
  next
    case False
    then show ?thesis
      unfolding step by (simp add: add.assoc)
  qed
  finally show ?case by simp
qed

text \<open>
  C4, as the code has it. On numbers, the fragment of \<open>Mean\<close> adds
  \<open>(operand - accumulator) / (i + 1)\<close> to the accumulator, \<open>i\<close> being the index of the
  reduction loop, and stores the sum converted to the element type of the accumulator.
  The loop starts at \<open>i = 0\<close>. So with a float accumulator, and floats taken as exact
  numbers, the loop over one or more numbers ends with their arithmetic mean, whatever
  number the accumulator was at the start; so does the generated reducer of a vector.
\<close>

theorem running_mean:
  "exec_stmt (ext_arith fm) dt i (Fin acc) (Fin x) scalar_in_place_fn_Mean =
     ext_store dt (Fin (acc + (x - acc) / (of_nat i + 1))) \<and>
   (dtype_kind dt = KFloat \<and> xs \<noteq> [] \<longrightarrow>
      fold_axis (ext_arith fm) dt scalar_in_place_fn_Mean 0 (Fin acc) (map Fin xs) =
        Inr (Fin (sum_list xs / of_nat (length xs)))) \<and>
   (dtype_kind dt = KFloat \<and> xs \<noteq> [] \<longrightarrow>
      bind (create_axis_reducer Mean (IntVal c) 0 1 dt False)
        (\<lambda>k. run_axis_reducer (ext_arith fm) k (Array [length xs] (map Fin xs))) =
        Inr (Scalar (Fin (sum_list xs / of_nat (length xs)))))"
proof (intro conjI impI)
  show "exec_stmt (ext_arith fm) dt i (Fin acc) (Fin x) scalar_in_place_fn_Mean =
     ext_store dt (Fin (acc + (x - acc) / (of_nat i + 1)))"
    by (rule mean_step)
next
  assume "dtype_kind dt = KFloat \<and> xs \<noteq> []"
  then show "fold_axis (ext_arith fm) dt scalar_in_place_fn_Mean 0 (Fin acc) (map Fin xs) =
      Inr (Fin (sum_list xs / of_nat (length xs)))"
    by (simp add: mean_fold)
next
  assume a: "dtype_kind dt = KFloat \<and> xs \<noteq> []"
  have build: "create_axis_reducer Mean (IntVal c) 0 1 dt False =
      Inr (Reduce1D 0 (Str (IntVal c)) scalar_in_place_fn_Mean dt False)"
    by (simp add: create_axis_reducer_def normalize_axis_index_def identity_source_def
        scalar_in_place_fn_def registry_def)
  have lit: "ext_literal (Str (IntVal c)) = (Inr (Fin (of_int c)) :: error + 'a ext)"
    by (simp add: ext_literal_def)
  have elems: "map (\<lambda>i. map Fin xs ! i) [0..<length xs] = map Fin xs"
    by (rule nth_equalityI) simp_all
  have run: "bind (create_axis_reducer Mean (IntVal c) 0 1 dt False)
        (\<lambda>k. run_axis_reducer (ext_arith fm) k (Array [length xs] (map Fin xs))) =
      bind (fold_axis (ext_arith fm) dt scalar_in_place_fn_Mean 0 (Fin (of_int c)) (map Fin xs))
        (\<lambda>r. Inr (Scalar r))"
    unfolding build using a by (simp add: lit float_store elems)
  show "bind (create_axis_reducer Mean (IntVal c) 0 1 dt False)
        (\<lambda>k. run_axis_reducer (ext_arith fm) k (Array [length xs] (map Fin xs))) =
        Inr (Scalar (Fin (sum_list xs / of_nat (length xs))))"
    unfolding run using a by (simp add: mean_fold)
qed

theorem running_mean_witness:
  "fold_axis (ext_arith True) (DType KFloat 64) scalar_in_place_fn_Mean 0 (Fin (7 :: rat))
     (map Fin [1, 2, 4]) = Inr (Fin (7 / 3)) \<and>
   bind (create_axis_reducer Mean (IntVal 0) 0 1 (DType KFloat 64) False)
     (\<lambda>k. run_axis_reducer (ext_arith True) k (Array [3] (map Fin [1, 2, 4 :: rat]))) =
     Inr (Scalar (Fin (7 / 3)))"
  using running_mean[of True "DType KFloat 64" 0 "7 :: rat" 0 "[1, 2, 4]" 0]
  by (simp add: dtype_kind_def numeral_3_eq_3)

text \<open>
  Where the claim fails as it is written. From the accumulator \<open>+inf\<close> the first update
  is \<open>inf + (1 - inf) / 1\<close>, not-a-number and not the mean 1. In an accumulator of 8-bit
  integers the mean of 1 and 2 ends as 1: the sum \<open>1 + 1 / 2\<close> is truncated when stored.
\<close>

theorem running_mean_counterexample:
  "fold_axis (ext_arith False) (DType KFloat 64) scalar_in_place_fn_Mean 0 PInf
     [Fin (1 :: rat)] = Inr Nan \<and>
   fold_axis (ext_arith False) (DType KInt 8) scalar_in_place_fn_Mean 0 (Fin 0)
     [Fin 1, Fin (2 :: rat)] = Inr (Fin 1)"
  by code_simp

section \<open>Multi-output elementwise nodes\<close>

text \<open>
  C9. The builder of the vectorised function raises \<open>NotImplementedError\<close>, the error
  the specification calls UnsupportedArity, for a node with more than one output, and so
  does the elementwise builder that calls it. For a node with outputs it returns a kernel
  exactly when there is one output.
\<close>

theorem multi_output_rejected:
  "(length (outputs node) > 1 \<longrightarrow>
      create_vectorize_func scalar_op_fn node use_signature identity =
        Inl (NotImplementedError
               ''Multi-output Elemwise Ops are not supported by the Numba backend'') \<and>
      numba_funcify_Elemwise op node =
        Inl (NotImplementedError
               ''Multi-output Elemwise Ops are not supported by the Numba backend'')) \<and>
   (outputs node \<noteq> [] \<longrightarrow>
      ((\<exists>k. create_vectorize_func scalar_op_fn node use_signature identity = Inr k)
         \<longleftrightarrow> length (outputs node) = 1))"
  by (cases "outputs node")
     (auto simp: create_vectorize_func_def numba_funcify_Elemwise_def)

theorem multi_output_witness:
  "create_vectorize_func (ScalarFn 2 (\<lambda>xs. xs ! 0 + xs ! 1 :: int))
     \<lparr>inputs = [], outputs = [\<lparr>ty_dtype = DType KInt 64, ty_ndim = 1, ty_shape = [None]\<rparr>,
                              \<lparr>ty_dtype = DType KInt 64, ty_ndim = 1, ty_shape = [None]\<rparr>]\<rparr>
     False None =
     Inl (NotImplementedError
            ''Multi-output Elemwise Ops are not supported by the Numba backend'')"
  using multi_output_rejected[of
      "\<lparr>inputs = [], outputs = [\<lparr>ty_dtype = DType KInt 64, ty_ndim = 1, ty_shape = [None]\<rparr>,
                              \<lparr>ty_dtype = DType KInt 64, ty_ndim = 1, ty_shape = [None]\<rparr>]\<rparr>"
      "ScalarFn 2 (\<lambda>xs. xs ! 0 + xs ! 1 :: int)" False None
      "\<lparr>eo_scalar_op_fn = ScalarFn 2 (\<lambda>xs. xs ! 0 + xs ! 1 :: int),
        eo_inplace_pattern = []\<rparr>"]
  by simp

section \<open>Maximum and argmax of the example matrix\<close>

text \<open>
  C6, where the code departs from it. The matrix \<open>[[3, 1, 2], [0, 5, 4]]\<close> is a matrix
  of 64-bit integers. The kernel built for it passes the identity \<open>-inf\<close> of the maximum
  to the reducer as it is, and the reducer fills an array of 64-bit integers with it: the
  maxima are not determined, for axis 1, for both axes and for the flattened array.
  \<open>numba_funcify_CAReduce\<close> replaces such an identity by the smallest integer of the
  type before it builds its reducer; \<open>numba_funcify_MaxAndArgmax\<close> does not. On the
  matrix taken as a matrix of floats the kernel returns what the claim says: the maxima
  \<open>[3, 5]\<close> and the positions \<open>[0, 1]\<close> for axis 1, the maximum 5 and the position 4,
  the row-major position within the reduced axes, for both axes and for the flattened
  array.
\<close>

theorem max_and_argmax_integer_matrix:
  "bind (numba_funcify_MaxAndArgmax \<lparr>mo_axis = [1]\<rparr>
           \<lparr>inputs = [\<lparr>ty_dtype = DType KInt 64, ty_ndim = 2, ty_shape = [None, None]\<rparr>],
            outputs = []\<rparr>)
     (\<lambda>k. run_maxandargmax (ext_arith True) k
             (Array [2, 3] (map Fin [3, 1, 2, 0, 5, 4 :: rat]))) =
     Inl Undefined \<and>
   bind (numba_funcify_MaxAndArgmax \<lparr>mo_axis = [0, 1]\<rparr>
           \<lparr>inputs = [\<lparr>ty_dtype = DType KInt 64, ty_ndim = 2, ty_shape = [None, None]\<rparr>],
            outputs = []\<rparr>)
     (\<lambda>k. run_maxandargmax (ext_arith True) k
             (Array [2, 3] (map Fin [3, 1, 2, 0, 5, 4 :: rat]))) =
     Inl Undefined \<and>
   bind (numba_funcify_MaxAndArgmax \<lparr>mo_axis = [0]\<rparr>
           \<lparr>inputs = [\<lparr>ty_dtype = DType KInt 64, ty_ndim = 1, ty_shape = [None]\<rparr>],
            outputs = []\<rparr>)
     (\<lambda>k. run_maxandargmax (ext_arith True) k
             (Array [6] (map Fin [3, 1, 2, 0, 5, 4 :: rat]))) =
     Inl Undefined \<and>
   bind (numba_funcify_MaxAndArgmax \<lparr>mo_axis = [1]\<rparr>
           \<lparr>inputs = [\<lparr>ty_dtype = DType KFloat 64, ty_ndim = 2, ty_shape = [None, None]\<rparr>],
            outputs = []\<rparr>)
     (\<lambda>k. run_maxandargmax (ext_arith True) k
             (Array [2, 3] (map Fin [3, 1, 2, 0, 5, 4 :: rat]))) =
     Inr (Array [2] [Fin 3, Fin 5], Array [2] [0, 1]) \<and>
   bind (numba_funcify_MaxAndArgmax \<lparr>mo_axis = [0, 1]\<rparr>
           \<lparr>inputs = [\<lparr>ty_dtype = DType KFloat 64, ty_ndim = 2, ty_shape = [None, None]\<rparr>],
            outputs = []\<rparr>)
     (\<lambda>k. run_maxandargmax (ext_arith True) k
             (Array [2, 3] (map Fin [3, 1, 2, 0, 5, 4 :: rat]))) =
     Inr (Scalar (Fin 5), Array [] [4]) \<and>
   bind (numba_funcify_MaxAndArgmax \<lparr>mo_axis = [0]\<rparr>
           \<lparr>inputs = [\<lparr>ty_dtype = DType KFloat 64, ty_ndim = 1, ty_shape = [None]\<rparr>],
            outputs = []\<rparr>)
     (\<lambda>k. run_maxandargmax (ext_arith True) k
             (Array [6] (map Fin [3, 1, 2, 0, 5, 4 :: rat]))) =
     Inr (Scalar (Fin 5), Array [] [4])"
  by code_simp

section \<open>Stages of the multi-axis reducer\<close>

lemma registered_emits:
  "op \<in> fst ` set registry \<Longrightarrow> \<exists>s. scalar_in_place_fn op = Inr s"
  by (cases "map_of registry op")
     (auto simp: scalar_in_place_fn_def map_of_eq_None_iff)

lemma normalize_axis_index_nat:
  "a < nd \<Longrightarrow> normalize_axis_index (int a) nd = Inr a"
  by (simp add: normalize_axis_index_def)

lemma normalize_axis_index_less:
  "normalize_axis_index axis nd = Inr a \<Longrightarrow> a < nd"
  by (auto simp: normalize_axis_index_def split: if_splits)

lemma create_axis_reducer_axis:
  assumes "create_axis_reducer op identity axis nd dt keepdims = Inr k"
  shows "normalize_axis_index axis nd = Inr (axis_of k)"
  using assms
  by (cases "normalize_axis_index axis nd")
     (auto simp: create_axis_reducer_def Let_def bind_eq_Inr_iff
           split: if_splits prod.splits)

lemma create_axis_reducer_identity:
  assumes "create_axis_reducer op identity axis nd dt keepdims = Inr k"
  shows "identity_of k = identity_source identity"
  using assms
  by (auto simp: create_axis_reducer_def Let_def bind_eq_Inr_iff
           split: if_splits prod.splits)

lemma create_axis_reducer_registered:
  assumes "op \<in> fst ` set registry" and "normalize_axis_index axis nd = Inr a"
  shows "\<exists>k. create_axis_reducer op identity axis nd dt keepdims = Inr k"
proof -
  obtain s where "scalar_in_place_fn op = Inr s"
    using registered_emits[OF assms(1)] by blast
  then show ?thesis
    using assms(2) by (auto simp: create_axis_reducer_def Let_def split: prod.splits)
qed

lemma length_res_shape_tuple_ctor [simp]:
  "length (res_shape_tuple_ctor axis n sh) = n"
  by (simp add: res_shape_tuple_ctor_def)

lemma create_axis_reducer_Inr:
  assumes "create_axis_reducer op identity axis nd dt keepdims = Inr k"
  shows "\<exists>a s. normalize_axis_index axis nd = Inr a \<and> scalar_in_place_fn op = Inr s \<and>
     k = (if nd > 1
          then ReduceND a (nd - 1) (identity_source identity)
                 (fst (build_indices a [0..<nd] ([], [], 0)))
                 (fst (snd (build_indices a [0..<nd] ([], [], 0)))) s dt keepdims
          else Reduce1D a (identity_source identity) s dt keepdims)"
  using assms
  by (auto simp: create_axis_reducer_def Let_def bind_eq_Inr_iff case_prod_beta
           split: if_splits)

text \<open>
  A reducer built without \<open>keepdims\<close> accepts only arrays of the rank it was built for
  and returns a value of one rank less.
\<close>

lemma run_axis_reducer_ndim:
  assumes "create_axis_reducer op identity axis nd dt False = Inr k"
    and "run_axis_reducer A k x = Inr y"
  shows "ndim x = nd \<and> ndim y = nd - 1"
proof -
  have nd: "0 < nd"
    using create_axis_reducer_axis[OF assms(1)] normalize_axis_index_less by fastforce
  show ?thesis
  proof (cases "nd > 1")
    case True
    then obtain a ri ai s idn where k: "k = ReduceND a (nd - 1) idn ri ai s dt False"
      using create_axis_reducer_Inr[OF assms(1)] by auto
    show ?thesis
      using assms(2) True unfolding k
      by (cases x) (auto simp: bind_eq_Inr_iff Let_def split: if_splits)
  next
    case False
    then obtain a s idn where k: "k = Reduce1D a idn s dt False"
      using create_axis_reducer_Inr[OF assms(1)] by auto
    show ?thesis
      using assms(2) False nd unfolding k
      by (cases x) (auto simp: bind_eq_Inr_iff Let_def split: if_splits)
  qed
qed

lemma build_stages_length:
  "build_stages op identity axes nd dt = Inr ks \<Longrightarrow> length ks = length axes"
  by (induction axes arbitrary: nd ks) (auto simp: bind_eq_Inr_iff)

lemma build_stages_nth:
  "build_stages op identity axes nd dt = Inr ks \<Longrightarrow> i < length axes \<Longrightarrow>
     create_axis_reducer op identity (int (axes ! i)) (nd - i) dt False = Inr (ks ! i)"
proof (induction axes arbitrary: nd ks i)
  case Nil
  then show ?case by simp
next
  case (Cons a axes)
  from Cons.prems(1) obtain k rest where ks: "ks = k # rest"
    and k: "create_axis_reducer op identity (int a) nd dt False = Inr k"
    and rest: "build_stages op identity axes (nd - 1) dt = Inr rest"
    by (auto simp: bind_eq_Inr_iff)
  show ?case
  proof (cases i)
    case 0
    then show ?thesis using k ks by simp
  next
    case (Suc j)
    then have "j < length axes" using Cons.prems(2) by simp
    from Cons.IH[OF rest this] show ?thesis
      using Suc ks by simp
  qed
qed

lemma build_stages_axes:
  "build_stages op identity axes nd dt = Inr ks \<Longrightarrow> map axis_of ks = axes"
proof (induction axes arbitrary: nd ks)
  case Nil
  then show ?case by simp
next
  case (Cons a axes)
  then show ?case
    by (auto simp: bind_eq_Inr_iff dest!: create_axis_reducer_axis
        simp: normalize_axis_index_def split: if_splits)
qed

lemma run_stages_ndim:
  "build_stages op identity axes nd dt = Inr ks \<Longrightarrow> ndim x = nd \<Longrightarrow>
     run_stages A ks x = Inr y \<Longrightarrow> ndim y = nd - length axes"
proof (induction axes arbitrary: nd ks x)
  case Nil
  then show ?case by simp
next
  case (Cons a axes)
  then obtain k rest where ks: "ks = k # rest"
    and k: "create_axis_reducer op identity (int a) nd dt False = Inr k"
    and rest: "build_stages op identity axes (nd - 1) dt = Inr rest"
    by (auto simp: bind_eq_Inr_iff)
  from Cons.prems(3) obtain z where z: "run_axis_reducer A k x = Inr z"
    and y: "run_stages A rest z = Inr y"
    unfolding ks by (auto simp: bind_eq_Inr_iff)
  have "ndim z = nd - 1"
    using run_axis_reducer_ndim[OF k z] by simp
  from Cons.IH[OF rest this y] show ?case by simp
qed

text \<open>Descending, pairwise distinct axes below the rank can all be built.\<close>

lemma build_stages_descending:
  assumes "op \<in> fst ` set registry"
  shows "sorted_wrt (>) axes \<Longrightarrow> \<forall>a\<in>set axes. a < nd \<Longrightarrow>
     \<exists>ks. build_stages op identity axes nd dt = Inr ks"
proof (induction axes arbitrary: nd)
  case Nil
  then show ?case by simp
next
  case (Cons a axes)
  have "a < nd" using Cons.prems(2) by simp
  then obtain k where k: "create_axis_reducer op identity (int a) nd dt False = Inr k"
    using create_axis_reducer_registered[OF assms normalize_axis_index_nat] by blast
  have "\<forall>b\<in>set axes. b < nd - 1"
    using Cons.prems(1) \<open>a < nd\<close> by fastforce
  moreover have "sorted_wrt (>) axes" using Cons.prems(1) by simp
  ultimately obtain rest where "build_stages op identity axes (nd - 1) dt = Inr rest"
    using Cons.IH by blast
  with k show ?case by simp
qed

lemma sequence_map_Inr:
  "sequence (map f xs) = Inr ys \<longleftrightarrow> length ys = length xs \<and> (\<forall>i<length xs. f (xs ! i) = Inr (ys ! i))"
proof (induction xs arbitrary: ys)
  case Nil
  then show ?case by auto
next
  case (Cons x xs)
  show ?case
  proof (cases ys)
    case Nil
    then show ?thesis by (auto simp: bind_eq_Inr_iff)
  next
    case (Cons y ys')
    then show ?thesis
      by (auto simp: bind_eq_Inr_iff Cons.IH All_less_Suc2 nth_Cons')
  qed
qed

lemma normalize_axis_tuple_Inr:
  assumes "normalize_axis_tuple axes nd = Inr axs"
  shows "length axs = length axes" and "distinct axs" and "\<forall>a\<in>set axs. a < nd"
    and "\<forall>i<length axes. normalize_axis_index (axes ! i) nd = Inr (axs ! i)"
proof -
  from assms have seq: "sequence (map (\<lambda>ax. normalize_axis_index ax nd) axes) = Inr axs"
    and len: "length (remdups axs) = length axs"
    by (auto simp: normalize_axis_tuple_def bind_eq_Inr_iff split: if_splits)
  from seq show "length axs = length axes"
    and nth: "\<forall>i<length axes. normalize_axis_index (axes ! i) nd = Inr (axs ! i)"
    by (simp_all add: sequence_map_Inr)
  from len show "distinct axs"
    by (metis distinct_remdups length_remdups_eq)
  show "\<forall>a\<in>set axs. a < nd"
    using nth \<open>length axs = length axes\<close>
    by (metis in_set_conv_nth normalize_axis_index_less)
qed

lemma descending_sort:
  "distinct xs \<Longrightarrow> sorted_wrt (>) (rev (sort (xs :: nat list)))"
proof -
  assume "distinct xs"
  then have "sorted_wrt (<) (sort xs)"
    by (simp add: strict_sorted_iff)
  moreover have "(\<lambda>x y. y > x) = ((<) :: nat \<Rightarrow> nat \<Rightarrow> bool)"
    by auto
  ultimately show ?thesis
    by (simp add: sorted_wrt_rev)
qed

subsection \<open>The identity literal of the stages\<close>

lemma build_stages_identity:
  "build_stages op identity axes nd dt = Inr ks \<Longrightarrow>
     \<forall>s\<in>set ks. identity_of s = identity_source identity"
  by (induction axes arbitrary: nd ks)
     (auto simp: bind_eq_Inr_iff dest: create_axis_reducer_identity)

lemma create_multiaxis_reducer_identity:
  assumes "create_multiaxis_reducer op identity axes nd dt = Inr k"
  shows "\<forall>s\<in>set (stages_of k). identity_of s = identity_source identity"
  using assms
  by (auto simp: create_multiaxis_reducer_def bind_eq_Inr_iff Let_def
      split: if_splits dest: create_axis_reducer_identity build_stages_identity)

subsection \<open>Reductions that cannot fail\<close>

text \<open>
  When the update statement cannot fail in the arithmetic at hand and the identity literal
  has a value in the element type of the result, a reducer returns on every array of the
  rank it was built for.
\<close>

lemma fold_axis_returns:
  assumes "\<forall>i res arr. \<exists>v. exec_stmt A dt i res arr s = Inr v"
  shows "\<exists>v. fold_axis A dt s i res xs = Inr v"
proof (induction xs arbitrary: i res)
  case Nil
  then show ?case by simp
next
  case (Cons x xs)
  from assms obtain v where "exec_stmt A dt i res x s = Inr v"
    by blast
  with Cons.IH[of "Suc i" v] show ?case by simp
qed

lemma reduce_cells_returns:
  assumes "\<forall>i res arr. \<exists>v. exec_stmt A dt i res arr s = Inr v"
  shows "\<exists>r. reduce_cells A dt s ri ai xsh x rsh n idxs res = Inr r"
proof (induction idxs arbitrary: res)
  case Nil
  then show ?case by simp
next
  case (Cons idx idxs)
  obtain v where "fold_axis A dt s 0 (res ! ravel rsh (map (eval_index idx 0) ri))
      (map (\<lambda>i. x ! ravel xsh (map (eval_index idx i) ai)) [0..<n]) = Inr v"
    using fold_axis_returns[OF assms] by blast
  then have "reduce_cell A dt s ri ai xsh x rsh n idx res =
      Inr (res[ravel rsh (map (eval_index idx 0) ri) := v])"
    by (simp add: reduce_cell_def Let_def)
  with Cons.IH show ?case by simp
qed

lemma run_axis_reducer_returns:
  assumes k: "create_axis_reducer op identity axis nd dt False = Inr k"
    and s: "scalar_in_place_fn op = Inr s"
    and total: "\<forall>i res arr. \<exists>v. exec_stmt A dt i res arr s = Inr v"
    and lit: "bind (literal A (identity_source identity)) (store A dt) = Inr v0"
    and x: "ndim x = nd"
  shows "\<exists>y. run_axis_reducer A k x = Inr y"
proof -
  from create_axis_reducer_Inr[OF k] s obtain a where
    k': "k = (if nd > 1
          then ReduceND a (nd - 1) (identity_source identity)
                 (fst (build_indices a [0..<nd] ([], [], 0)))
                 (fst (snd (build_indices a [0..<nd] ([], [], 0)))) s dt False
          else Reduce1D a (identity_source identity) s dt False)"
    and a: "normalize_axis_index axis nd = Inr a"
    by auto
  from lit obtain v1 where v1: "literal A (identity_source identity) = Inr v1"
    and st: "store A dt v1 = Inr v0"
    by (auto simp: bind_eq_Inr_iff)
  have nd: "0 < nd"
    using normalize_axis_index_less[OF a] by simp
  with x obtain sh d where xa: "x = Array sh d" and lsh: "length sh = nd"
    by (cases x) auto
  show ?thesis
  proof (cases "nd > 1")
    case True
    let ?rs = "res_shape_tuple_ctor a (nd - 1) sh"
    obtain r where "reduce_cells A dt s (fst (build_indices a [0..<nd] ([], [], 0)))
        (fst (snd (build_indices a [0..<nd] ([], [], 0)))) sh d ?rs (sh ! a)
        (ndindex ?rs) (replicate (prod_list ?rs) v0) = Inr r"
      using reduce_cells_returns[OF total] by blast
    with True lsh v1 st show ?thesis
      unfolding k' xa by (simp add: Let_def del: ndindex.simps)
  next
    case False
    obtain v where "fold_axis A dt s 0 v0 (map (\<lambda>i. d ! i) [0..<sh ! a]) = Inr v"
      using fold_axis_returns[OF total] by blast
    with False nd lsh v1 st show ?thesis
      unfolding k' xa by simp
  qed
qed

lemma run_stages_returns:
  assumes s: "scalar_in_place_fn op = Inr s"
    and total: "\<forall>i res arr. \<exists>v. exec_stmt A dt i res arr s = Inr v"
    and lit: "bind (literal A (identity_source identity)) (store A dt) = Inr v0"
  shows "build_stages op identity axes nd dt = Inr ks \<Longrightarrow> ndim x = nd \<Longrightarrow>
     \<exists>y. run_stages A ks x = Inr y"
proof (induction axes arbitrary: nd ks x)
  case Nil
  then show ?case by simp
next
  case (Cons a axes)
  then obtain k rest where ks: "ks = k # rest"
    and k: "create_axis_reducer op identity (int a) nd dt False = Inr k"
    and rest: "build_stages op identity axes (nd - 1) dt = Inr rest"
    by (auto simp: bind_eq_Inr_iff)
  obtain z where z: "run_axis_reducer A k x = Inr z"
    using run_axis_reducer_returns[OF k s total lit Cons.prems(2)] by blast
  have "ndim z = nd - 1"
    using run_axis_reducer_ndim[OF k z] by simp
  from Cons.IH[OF rest this] obtain y where "run_stages A rest z = Inr y"
    by blast
  with z ks show ?case by simp
qed

lemma run_careduce_returns:
  assumes multi: "create_multiaxis_reducer op identity axes nd dt = Inr k"
    and s: "scalar_in_place_fn op = Inr s"
    and total: "\<forall>i res arr. \<exists>v. exec_stmt A dt i res arr s = Inr v"
    and lit: "bind (literal A (identity_source identity)) (store A dt) = Inr v0"
    and x: "ndim x = nd"
  shows "\<exists>y. run_careduce A k x = Inr y"
proof (cases "length axes = 1")
  case True
  with multi obtain r where k: "k = AxisReducer r"
    and r: "create_axis_reducer op identity (axes ! 0) nd dt False = Inr r"
    by (auto simp: create_multiaxis_reducer_def bind_eq_Inr_iff)
  from run_axis_reducer_returns[OF r s total lit x] k show ?thesis
    by simp
next
  case False
  with multi obtain axs ks where k: "k = Composed ks"
    and ks: "build_stages op identity (rev (sort axs)) nd dt = Inr ks"
    by (auto simp: create_multiaxis_reducer_def bind_eq_Inr_iff Let_def)
  from run_stages_returns[OF s total lit ks x] k show ?thesis
    by simp
qed

text \<open>
  Addition into a float accumulator cannot fail in a kernel compiled without fast-math.
\<close>

lemma add_total_float:
  "\<forall>i res arr. \<exists>v. exec_stmt (ext_arith False) (DType KFloat bits) i res arr
     scalar_in_place_fn_Add = Inr v"
  by (simp add: scalar_in_place_fn_Add_def compiled_binop_def ext_binop_def ext_store_def)

subsection \<open>The element type of the stages\<close>

lemma create_axis_reducer_dtype:
  assumes "create_axis_reducer op identity axis nd dt keepdims = Inr k"
  shows "dtype_of k = dt"
  using assms
  by (auto simp: create_axis_reducer_def Let_def bind_eq_Inr_iff
           split: if_splits prod.splits)

lemma build_stages_dtype:
  "build_stages op identity axes nd dt = Inr ks \<Longrightarrow> \<forall>s\<in>set ks. dtype_of s = dt"
  by (induction axes arbitrary: nd ks)
     (auto simp: bind_eq_Inr_iff dest: create_axis_reducer_dtype)

lemma create_multiaxis_reducer_dtype:
  assumes "create_multiaxis_reducer op identity axes nd dt = Inr k"
  shows "\<forall>s\<in>set (stages_of k). dtype_of s = dt"
  using assms
  by (auto simp: create_multiaxis_reducer_def bind_eq_Inr_iff Let_def
      split: if_splits dest: create_axis_reducer_dtype build_stages_dtype)

lemma normalize_axis_tuple_upt:
  "normalize_axis_tuple (map int [0..<n]) n = Inr [0..<n]"
proof -
  have "sequence (map (\<lambda>ax. normalize_axis_index ax n) (map int [0..<n])) = Inr [0..<n]"
    by (simp add: sequence_map_Inr normalize_axis_index_nat)
  then show ?thesis
    by (simp add: normalize_axis_tuple_def)
qed

text \<open>
  C1, as the code has it. When NumPy's normalisation accepts the axes, which it does when
  each lies in \<open>[-rank, rank)\<close> and no two name the same axis, and the operator is
  registered, the reducer for any number of axes other than one is a chain of stages:
  one per axis, in descending order of the normalised axes, each the single-axis reducer
  without \<open>keepdims\<close> built for the rank left by the stages before it, each called on
  the result of the one before; a result has the rank less the number of axes, and there
  is a result whenever the update statement cannot fail in the arithmetic of the elements
  and the identity literal has a value in the element type of the result. Axes that are
  the same after normalisation are not merged but rejected with a \<open>ValueError\<close>.
\<close>

theorem multiaxis_reducer_stages:
  "(op \<in> fst ` set registry \<and> length axes \<noteq> 1 \<and> normalize_axis_tuple axes nd = Inr axs \<longrightarrow>
      (\<exists>stages.
         create_multiaxis_reducer op identity axes nd dt = Inr (Composed stages) \<and>
         distinct axs \<and> set axs \<subseteq> {0..<nd} \<and>
         length stages = length axes \<and>
         map axis_of stages = rev (sort axs) \<and>
         (\<forall>i<length stages.
            create_axis_reducer op identity (int (rev (sort axs) ! i)) (nd - i) dt False =
              Inr (stages ! i)) \<and>
         (\<forall>A x. run_careduce A (Composed stages) x = run_stages A stages x) \<and>
         (\<forall>A x y. ndim x = nd \<and> run_careduce A (Composed stages) x = Inr y \<longrightarrow>
            ndim y = nd - length axes) \<and>
         (\<forall>A x s v0.
            scalar_in_place_fn op = Inr s \<and>
            (\<forall>i res arr. \<exists>v. exec_stmt A dt i res arr s = Inr v) \<and>
            bind (literal A (identity_source identity)) (store A dt) = Inr v0 \<and>
            ndim x = nd \<longrightarrow>
            (\<exists>y. run_careduce A (Composed stages) x = Inr y \<and>
                 ndim y = nd - length axes)))) \<and>
   (length axes \<noteq> 1 \<and>
    sequence (map (\<lambda>ax. normalize_axis_index ax nd) axes) = Inr axs \<and> \<not> distinct axs \<longrightarrow>
      create_multiaxis_reducer op identity axes nd dt = Inl ValueError)"
proof (intro conjI impI)
  assume a: "op \<in> fst ` set registry \<and> length axes \<noteq> 1 \<and>
    normalize_axis_tuple axes nd = Inr axs"
  then have norm: "normalize_axis_tuple axes nd = Inr axs" and reg: "op \<in> fst ` set registry"
    and len: "length axes \<noteq> 1"
    by simp_all
  note facts = normalize_axis_tuple_Inr[OF norm]
  have desc: "sorted_wrt (>) (rev (sort axs))"
    using facts(2) by (rule descending_sort)
  have below: "\<forall>a\<in>set (rev (sort axs)). a < nd"
    using facts(3) by simp
  obtain stages where st: "build_stages op identity (rev (sort axs)) nd dt = Inr stages"
    using build_stages_descending[OF reg desc below] by blast
  have build: "create_multiaxis_reducer op identity axes nd dt = Inr (Composed stages)"
    using len norm st by (simp add: create_multiaxis_reducer_def)
  have l: "length stages = length axes"
    using build_stages_length[OF st] facts(1) by simp
  have nth: "\<forall>i<length stages.
      create_axis_reducer op identity (int (rev (sort axs) ! i)) (nd - i) dt False =
        Inr (stages ! i)"
    using build_stages_nth[OF st] build_stages_length[OF st] by simp
  have rank: "\<forall>A x y. ndim x = nd \<and> run_careduce A (Composed stages) x = Inr y \<longrightarrow>
      ndim y = nd - length axes"
    using run_stages_ndim[OF st] facts(1) by auto
  have sub: "set axs \<subseteq> {0..<nd}"
    using facts(3) by auto
  have returns: "\<forall>A x s v0.
      scalar_in_place_fn op = Inr s \<and>
      (\<forall>i res arr. \<exists>v. exec_stmt A dt i res arr s = Inr v) \<and>
      bind (literal A (identity_source identity)) (store A dt) = Inr v0 \<and>
            ndim x = nd \<longrightarrow>
      (\<exists>y. run_careduce A (Composed stages) x = Inr y \<and> ndim y = nd - length axes)"
  proof (intro allI impI, goal_cases)
    case (1 A x s v0)
    then obtain y where y: "run_stages A stages x = Inr y"
      using run_stages_returns[OF _ _ _ st, of s A v0 x] by blast
    with rank 1 show ?case
      by auto
  qed
  show "\<exists>stages.
      create_multiaxis_reducer op identity axes nd dt = Inr (Composed stages) \<and>
      distinct axs \<and> set axs \<subseteq> {0..<nd} \<and>
      length stages = length axes \<and>
      map axis_of stages = rev (sort axs) \<and>
      (\<forall>i<length stages.
         create_axis_reducer op identity (int (rev (sort axs) ! i)) (nd - i) dt False =
           Inr (stages ! i)) \<and>
      (\<forall>A x. run_careduce A (Composed stages) x = run_stages A stages x) \<and>
      (\<forall>A x y. ndim x = nd \<and> run_careduce A (Composed stages) x = Inr y \<longrightarrow>
         ndim y = nd - length axes) \<and>
      (\<forall>A x s v0.
         scalar_in_place_fn op = Inr s \<and>
         (\<forall>i res arr. \<exists>v. exec_stmt A dt i res arr s = Inr v) \<and>
         bind (literal A (identity_source identity)) (store A dt) = Inr v0 \<and>
            ndim x = nd \<longrightarrow>
         (\<exists>y. run_careduce A (Composed stages) x = Inr y \<and>
              ndim y = nd - length axes))"
    using build facts(2) sub l build_stages_axes[OF st] nth rank returns
    by (intro exI[of _ stages]) simp
next
  assume "length axes \<noteq> 1 \<and>
    sequence (map (\<lambda>ax. normalize_axis_index ax nd) axes) = Inr axs \<and> \<not> distinct axs"
  then show "create_multiaxis_reducer op identity axes nd dt = Inl ValueError"
    by (auto simp: create_multiaxis_reducer_def normalize_axis_tuple_def
        length_remdups_eq)
qed

theorem multiaxis_reducer_stages_witness:
  "\<exists>stages. create_multiaxis_reducer Add (IntVal 0) [0, - 1] 3 (DType KFloat 64)
       = Inr (Composed stages) \<and>
     length stages = 2 \<and> map axis_of stages = [2, 0]"
proof -
  have reg: "Add \<in> fst ` set registry"
    by (simp add: registry_def)
  have norm: "normalize_axis_tuple [0, - 1] 3 = Inr [0, 2]"
    by (simp add: normalize_axis_tuple_def normalize_axis_index_def)
  have srt: "rev (sort [0, 2 :: nat]) = [2, 0]"
    by simp
  from multiaxis_reducer_stages[of Add "[0, - 1]" 3 "[0, 2]" "IntVal 0" "DType KFloat 64"]
    reg norm srt show ?thesis by auto
qed

theorem repeated_axis_counterexample:
  "create_multiaxis_reducer Add (IntVal 0) [1, - 1] 2 (DType KFloat 64) = Inl ValueError"
  by (simp add: create_multiaxis_reducer_def normalize_axis_tuple_def
      normalize_axis_index_def)

section \<open>Reduction over every axis\<close>

text \<open>
  C10. With no axis given the reduction node reduces over every axis of its input: the
  stages of the kernel reduce the axes \<open>rank - 1, ..., 0\<close>, each once, and on an input of
  the node's rank a result has rank 0, and there is a result whenever, in every stage,
  the update statement cannot fail in the arithmetic of the elements and the identity
  literal has a value in the element type of the stage. The kernel is built whenever the
  operator is registered and the accumulator is a float.
\<close>

theorem careduce_all_axes:
  assumes "co_axis op = None" and "inputs node = input # ins"
  shows "(numba_funcify_CAReduce op node = Inr k \<longrightarrow>
            map axis_of (stages_of k) = rev [0..<ty_ndim input] \<and>
            (\<forall>A x y. ndim x = ty_ndim input \<and> run_careduce A k x = Inr y \<longrightarrow> ndim y = 0) \<and>
            (\<forall>A x s.
               scalar_in_place_fn (co_scalar_op op) = Inr s \<and>
               list_all (\<lambda>st. \<forall>i res arr. \<exists>v. exec_stmt A (dtype_of st) i res arr s = Inr v)
                 (stages_of k) \<and>
               list_all (\<lambda>st. \<exists>v. bind (literal A (identity_of st)) (store A (dtype_of st)) = Inr v)
                 (stages_of k) \<and>
               ndim x = ty_ndim input \<longrightarrow>
               (\<exists>y. run_careduce A k x = Inr y \<and> ndim y = 0))) \<and>
         (co_scalar_op op \<in> fst ` set registry \<and> outputs node = output # outs \<and>
          co_acc_dtype op = None \<and> dtype_kind (ty_dtype output) = KFloat \<longrightarrow>
            (\<exists>k. numba_funcify_CAReduce op node = Inr k))"
proof (intro conjI impI)
  let ?n = "ty_ndim input"
  assume b: "numba_funcify_CAReduce op node = Inr k"
  then obtain idn dt where
    multi: "create_multiaxis_reducer (co_scalar_op op) idn (map int [0..<?n]) ?n dt = Inr k"
    using assms
    by (auto simp: numba_funcify_CAReduce_def getitem_def bind_eq_Inr_iff Let_def
        jit_compile_reducer_def split: if_splits)
  show "map axis_of (stages_of k) = rev [0..<?n]"
  proof (cases "?n = 1")
    case True
    with multi obtain r where k: "k = AxisReducer r"
      and r: "create_axis_reducer (co_scalar_op op) idn 0 1 dt False = Inr r"
      by (auto simp: create_multiaxis_reducer_def bind_eq_Inr_iff)
    have "axis_of r = 0"
      using create_axis_reducer_axis[OF r] by (simp add: normalize_axis_index_def)
    with k True show ?thesis by simp
  next
    case False
    with multi obtain ks where k: "k = Composed ks"
      and ks: "build_stages (co_scalar_op op) idn (rev (sort [0..<?n])) ?n dt = Inr ks"
      by (auto simp: create_multiaxis_reducer_def bind_eq_Inr_iff normalize_axis_tuple_upt)
    have "sort [0..<?n] = [0..<?n]"
      by (simp add: sorted_sort_id)
    with build_stages_axes[OF ks] k show ?thesis by simp
  qed
  show rank: "\<forall>A x y. ndim x = ?n \<and> run_careduce A k x = Inr y \<longrightarrow> ndim y = 0"
  proof (cases "?n = 1")
    case True
    with multi obtain r where k: "k = AxisReducer r"
      and r: "create_axis_reducer (co_scalar_op op) idn 0 1 dt False = Inr r"
      by (auto simp: create_multiaxis_reducer_def bind_eq_Inr_iff)
    show ?thesis
      using run_axis_reducer_ndim[OF r] k by auto
  next
    case False
    with multi obtain ks where k: "k = Composed ks"
      and ks: "build_stages (co_scalar_op op) idn (rev (sort [0..<?n])) ?n dt = Inr ks"
      by (auto simp: create_multiaxis_reducer_def bind_eq_Inr_iff normalize_axis_tuple_upt)
    show ?thesis
      using run_stages_ndim[OF ks] k by auto
  qed
  show "\<forall>A x s.
      scalar_in_place_fn (co_scalar_op op) = Inr s \<and>
      list_all (\<lambda>st. \<forall>i res arr. \<exists>v. exec_stmt A (dtype_of st) i res arr s = Inr v)
        (stages_of k) \<and>
      list_all (\<lambda>st. \<exists>v. bind (literal A (identity_of st)) (store A (dtype_of st)) = Inr v)
        (stages_of k) \<and>
      ndim x = ?n \<longrightarrow>
      (\<exists>y. run_careduce A k x = Inr y \<and> ndim y = 0)"
  proof (intro allI impI, goal_cases)
    case (1 A x s)
    note h = 1
    have "\<exists>y. run_careduce A k x = Inr y"
    proof (cases "stages_of k")
      case Nil
      then have "k = Composed []"
        by (cases k) simp_all
      then show ?thesis by simp
    next
      case (Cons st sts)
      have idn: "identity_of st = identity_source idn"
        using create_multiaxis_reducer_identity[OF multi] Cons by simp
      have dt: "dtype_of st = dt"
        using create_multiaxis_reducer_dtype[OF multi] Cons by simp
      from h Cons obtain v0 where
        "bind (literal A (identity_of st)) (store A (dtype_of st)) = Inr v0"
        by auto
      then have lit: "bind (literal A (identity_source idn)) (store A dt) = Inr v0"
        by (simp add: idn dt)
      from h Cons have total: "\<forall>i res arr. \<exists>v. exec_stmt A dt i res arr s = Inr v"
        by (simp add: dt)
      from h have s: "scalar_in_place_fn (co_scalar_op op) = Inr s" and x: "ndim x = ?n"
        by simp_all
      from run_careduce_returns[OF multi s total lit x] show ?thesis .
    qed
    with rank h show ?case
      by blast
  qed
next
  let ?n = "ty_ndim input"
  assume a: "co_scalar_op op \<in> fst ` set registry \<and> outputs node = output # outs \<and>
    co_acc_dtype op = None \<and> dtype_kind (ty_dtype output) = KFloat"
  then have reg: "co_scalar_op op \<in> fst ` set registry" by simp
  obtain v where v: "np_array (co_identity op) (ty_dtype output) = Inr v"
    using a by (cases "co_identity op") (auto simp: np_array_def)
  have "\<exists>k. create_multiaxis_reducer (co_scalar_op op) v (map int [0..<?n]) ?n
      (ty_dtype output) = Inr k"
  proof (cases "?n = 1")
    case True
    have n: "normalize_axis_index 0 1 = Inr 0"
      by (simp add: normalize_axis_index_def)
    obtain r where "create_axis_reducer (co_scalar_op op) v 0 1 (ty_dtype output) False = Inr r"
      using create_axis_reducer_registered[OF reg n] by blast
    with True show ?thesis
      by (simp add: create_multiaxis_reducer_def)
  next
    case False
    have "sorted_wrt (>) (rev (sort [0..<?n]))"
      by (rule descending_sort) simp
    moreover have "\<forall>a\<in>set (rev (sort [0..<?n])). a < ?n"
      by simp
    ultimately obtain ks where
      "build_stages (co_scalar_op op) v (rev (sort [0..<?n])) ?n (ty_dtype output) = Inr ks"
      using build_stages_descending[OF reg] by blast
    with False show ?thesis
      by (simp add: create_multiaxis_reducer_def normalize_axis_tuple_upt)
  qed
  then show "\<exists>k. numba_funcify_CAReduce op node = Inr k"
    using a assms v
    by (auto simp: numba_funcify_CAReduce_def getitem_def Let_def jit_compile_reducer_def)
qed

theorem careduce_all_axes_witness:
  "numba_funcify_CAReduce
     \<lparr>co_scalar_op = Add, co_identity = IntVal 0, co_axis = None, co_acc_dtype = None\<rparr>
     \<lparr>inputs = [\<lparr>ty_dtype = DType KFloat 64, ty_ndim = 2, ty_shape = [None, None]\<rparr>],
      outputs = [\<lparr>ty_dtype = DType KFloat 64, ty_ndim = 0, ty_shape = []\<rparr>]\<rparr> =
     Inr (Composed
       [ReduceND 1 1 (Str (FloatVal 0)) [IdxArr 0] [IdxArr 0, I] (AugAssign Plus Arr)
          (DType KFloat 64) False,
        Reduce1D 0 (Str (FloatVal 0)) (AugAssign Plus Arr) (DType KFloat 64) False]) \<and>
   run_careduce (ext_arith True) (Composed
       [ReduceND 1 1 (Str (FloatVal 0)) [IdxArr 0] [IdxArr 0, I] (AugAssign Plus Arr)
          (DType KFloat 64) False,
        Reduce1D 0 (Str (FloatVal 0)) (AugAssign Plus Arr) (DType KFloat 64) False])
     (Array [2, 2] (map Fin [1, 2, 3, 4 :: rat])) = Inr (Scalar (Fin 10)) \<and>
   ndim (Scalar (Fin (10 :: rat))) = 0"
proof -
  let ?op = "\<lparr>co_scalar_op = Add, co_identity = IntVal 0, co_axis = None,
                co_acc_dtype = None\<rparr>"
  let ?input = "\<lparr>ty_dtype = DType KFloat 64, ty_ndim = 2, ty_shape = [None, None]\<rparr>"
  let ?node = "\<lparr>inputs = [?input],
                  outputs = [\<lparr>ty_dtype = DType KFloat 64, ty_ndim = 0, ty_shape = []\<rparr>]\<rparr>"
  let ?k = "Composed
       [ReduceND 1 1 (Str (FloatVal 0)) [IdxArr 0] [IdxArr 0, I] (AugAssign Plus Arr)
          (DType KFloat 64) False,
        Reduce1D 0 (Str (FloatVal 0)) (AugAssign Plus Arr) (DType KFloat 64) False]"
  have build: "numba_funcify_CAReduce ?op ?node = Inr ?k"
    by code_simp
  have run: "run_careduce (ext_arith True) ?k (Array [2, 2] (map Fin [1, 2, 3, 4 :: rat])) =
      Inr (Scalar (Fin 10))"
    by code_simp
  have h1: "co_axis ?op = None"
    by simp
  have h2: "inputs ?node = ?input # []"
    by simp
  have h3: "ndim (Array [2, 2] (map Fin [1, 2, 3, 4 :: rat])) = ty_ndim ?input"
    by simp
  from careduce_all_axes[OF h1 h2, of ?k] build
  have "\<forall>A x y. ndim x = ty_ndim ?input \<and> run_careduce A ?k x = Inr y \<longrightarrow> ndim y = 0"
    by blast
  with h3 run have "ndim (Scalar (Fin (10 :: rat))) = 0"
    by blast
  with build run show ?thesis by blast
qed

section \<open>The identity of a reduction kernel\<close>

text \<open>
  With a signed integer accumulator, an infinite identity is replaced by the largest or
  the smallest value of the accumulator's type in every stage of the kernel.
\<close>

lemma signed_identity_saturates:
  assumes "numba_funcify_CAReduce op node = Inr k"
    and "outputs node = output # outs"
    and "(case co_acc_dtype op of Some d \<Rightarrow> d | None \<Rightarrow> ty_dtype output) = DType KInt bits"
    and "co_identity op = Inf \<or> co_identity op = NegInf"
  shows "\<forall>s\<in>set (stages_of k).
     identity_of s =
       Str (IntVal (if co_identity op = Inf then 2 ^ (bits - 1) - 1 else - (2 ^ (bits - 1))))"
proof -
  have "(0 :: int) < 2 ^ (bits - 1)"
    by simp
  then have le: "- (2 ^ (bits - 1)) \<le> (2 ^ (bits - 1) - 1 :: int)"
    by linarith
  have "\<exists>axes nd. create_multiaxis_reducer (co_scalar_op op)
       (IntVal (if co_identity op = Inf then 2 ^ (bits - 1) - 1 else - (2 ^ (bits - 1))))
       axes nd (ty_dtype output) = Inr k"
    using assms le
    by (auto simp: numba_funcify_CAReduce_def getitem_def bind_eq_Inr_iff Let_def
        jit_compile_reducer_def dtype_kind_def isfinite_def isposinf_def iinfo_def
        np_array_def number_to_int_def split: if_splits)
  then obtain axes nd where
    multi: "create_multiaxis_reducer (co_scalar_op op)
       (IntVal (if co_identity op = Inf then 2 ^ (bits - 1) - 1 else - (2 ^ (bits - 1))))
       axes nd (ty_dtype output) = Inr k"
    by blast
  from create_multiaxis_reducer_identity[OF multi] show ?thesis
    by (simp add: identity_source_def)
qed

text \<open>
  With a float accumulator, an infinite identity reaches the kernel as the floating
  infinity of its sign.
\<close>

lemma float_identity_as_given:
  assumes "numba_funcify_CAReduce op node = Inr k"
    and "outputs node = output # outs"
    and "dtype_kind (case co_acc_dtype op of Some d \<Rightarrow> d | None \<Rightarrow> ty_dtype output) = KFloat"
    and "co_identity op = Inf \<or> co_identity op = NegInf"
  shows "\<forall>s\<in>set (stages_of k).
     identity_of s = (if co_identity op = Inf then NpInf else NegNpInf)"
proof -
  have "\<exists>axes nd. create_multiaxis_reducer (co_scalar_op op) (co_identity op)
       axes nd (ty_dtype output) = Inr k"
    using assms
    by (auto simp: numba_funcify_CAReduce_def getitem_def bind_eq_Inr_iff Let_def
        jit_compile_reducer_def isfinite_def isposinf_def np_array_def split: if_splits)
       blast+
  then obtain axes nd where
    multi: "create_multiaxis_reducer (co_scalar_op op) (co_identity op)
       axes nd (ty_dtype output) = Inr k"
    by blast
  from create_multiaxis_reducer_identity[OF multi] assms(4) show ?thesis
    by (auto simp: identity_source_def)
qed

text \<open>
  With an unsigned integer accumulator the test on the dtype's kind fails, the infinite
  identity is kept, and its conversion to the dtype raises: no kernel is built.
\<close>

lemma unsigned_identity_overflows:
  assumes "inputs node = input # ins"
    and "outputs node = output # outs"
    and "dtype_kind (case co_acc_dtype op of Some d \<Rightarrow> d | None \<Rightarrow> ty_dtype output) = KUInt"
    and "co_identity op = Inf \<or> co_identity op = NegInf"
  shows "numba_funcify_CAReduce op node = Inl OverflowError"
  using assms
  by (auto simp: numba_funcify_CAReduce_def getitem_def Let_def np_array_def
      number_to_int_def)

text \<open>
  C3, where the code departs from it. The maximum of a vector of unsigned 8-bit integers:
  the identity \<open>-inf\<close> is not replaced by the smallest value 0 of the type, and the build
  ends in an \<open>OverflowError\<close>. The same reduction over signed 8-bit integers gets the
  smallest value of its type.
\<close>

theorem unsigned_accumulator_not_saturated:
  "numba_funcify_CAReduce
     \<lparr>co_scalar_op = ScalarMaximum, co_identity = NegInf, co_axis = None,
      co_acc_dtype = None\<rparr>
     \<lparr>inputs = [\<lparr>ty_dtype = DType KUInt 8, ty_ndim = 1, ty_shape = [None]\<rparr>],
      outputs = [\<lparr>ty_dtype = DType KUInt 8, ty_ndim = 0, ty_shape = []\<rparr>]\<rparr> =
     Inl OverflowError \<and>
   numba_funcify_CAReduce
     \<lparr>co_scalar_op = ScalarMaximum, co_identity = NegInf, co_axis = None,
      co_acc_dtype = None\<rparr>
     \<lparr>inputs = [\<lparr>ty_dtype = DType KInt 8, ty_ndim = 1, ty_shape = [None]\<rparr>],
      outputs = [\<lparr>ty_dtype = DType KInt 8, ty_ndim = 0, ty_shape = []\<rparr>]\<rparr> =
     Inr (AxisReducer
            (Reduce1D 0 (Str (IntVal (- 128))) (IfStmt Res Lt Arr (Assign Arr))
               (DType KInt 8) False))"
  by code_simp

section \<open>In-place update of a scalar target\<close>

lemma broadcast_shapes_scalars:
  "\<forall>sh\<in>set shs. sh = [] \<Longrightarrow> broadcast_shapes shs = Inr []"
  by (induction shs) simp_all

lemma broadcast_get_rank0:
  assumes "ndim x = 0" and "wf_val x"
  shows "broadcast_get x [] = hd (data_of x)"
proof (cases x)
  case (Scalar v)
  then show ?thesis by (simp add: broadcast_get_def)
next
  case (Array sh d)
  with assms have "sh = []" and "length d = 1" by simp_all
  then obtain v where "d = [v]"
    by (cases d) simp_all
  with Array \<open>sh = []\<close> show ?thesis by (simp add: broadcast_get_def)
qed

lemma shape_of_rank0: "ndim x = 0 \<Longrightarrow> shape_of x = []"
  by (cases x) simp_all

lemma asarray_rank0:
  assumes "ndim x = 0" and "wf_val x"
  shows "asarray x = Array [] [hd (data_of x)]"
proof (cases x)
  case (Scalar v)
  then show ?thesis by (simp add: asarray_def)
next
  case (Array sh d)
  with assms have "sh = []" and "length d = 1" by simp_all
  then obtain v where "d = [v]"
    by (cases d) simp_all
  with Array \<open>sh = []\<close> show ?thesis by (simp add: asarray_def)
qed

lemma call_ufunc_scalars:
  assumes "length args = n" and "\<forall>x\<in>set args. ndim x = 0 \<and> wf_val x"
  shows "call_ufunc (UFunc (ScalarFn n f)) args =
     Inr (Scalar (f (map (\<lambda>x. hd (data_of x)) args)))"
proof -
  have sh: "broadcast_shapes (map shape_of args) = Inr []"
    using assms(2) by (intro broadcast_shapes_scalars) (auto simp: shape_of_rank0)
  have get: "map (\<lambda>x. broadcast_get x []) args = map (\<lambda>x. hd (data_of x)) args"
    using assms(2) by (simp add: broadcast_get_rank0)
  show ?thesis
    using assms(1) by (simp add: call_ufunc_def sh get)
qed

lemma call_ufunc_scalars_out:
  assumes "length args = n" and "\<forall>x\<in>set args. ndim x = 0 \<and> wf_val x"
  shows "call_ufunc (UFunc (ScalarFn n f)) (args @ [Array [] [v]]) =
     Inr (Array [] [f (map (\<lambda>x. hd (data_of x)) args)])"
proof -
  have sh: "broadcast_shapes (map shape_of args @ [[]]) = Inr []"
    using assms(2) by (intro broadcast_shapes_scalars) (auto simp: shape_of_rank0)
  have get: "map (\<lambda>x. broadcast_get x []) args = map (\<lambda>x. hd (data_of x)) args"
    using assms(2) by (simp add: broadcast_get_rank0)
  show ?thesis
    using assms(1) by (simp add: call_ufunc_def sh get)
qed

text \<open>
  C5. An elementwise node's arguments all have the rank of its output, so with a target
  of rank 0 every argument has rank 0. The builder then returns the scalar wrapper. Called
  on such arguments, the wrapper turns its target into an array of one element, has the
  vectorised function write the result into that array, and returns the element of the
  array as a bare scalar: the value that the kernel built for the same operator with no
  in-place pattern, the vectorised function itself, returns on the same arguments. A
  target passed as a bare scalar is as before the call; a target passed as an array of
  rank 0 is the array written into and holds the result after the call.
\<close>

theorem inplace_scalar_target:
  assumes "numba_funcify_Elemwise op node = Inr k"
    and "map_of (eo_inplace_pattern op) 0 = Some input_idx"
    and "getitem (inputs node) input_idx = Inr target"
    and "ty_ndim target = 0"
    and "eo_scalar_op_fn op = ScalarFn n f"
    and "length args = n"
    and "\<forall>x\<in>set args. ndim x = 0 \<and> wf_val x"
  shows "k = InplaceScalar (UFunc (ScalarFn n f)) n input_idx \<and>
         asarray (args ! input_idx) = Array [] [hd (data_of (args ! input_idx))] \<and>
         call_ufunc (UFunc (ScalarFn n f)) (args @ [asarray (args ! input_idx)]) =
           Inr (Array [] [f (map (\<lambda>x. hd (data_of x)) args)]) \<and>
         item (Array [] [f (map (\<lambda>x. hd (data_of x)) args)]) =
           Inr (f (map (\<lambda>x. hd (data_of x)) args)) \<and>
         run_elemwise k args =
           Inr (Scalar (f (map (\<lambda>x. hd (data_of x)) args)),
                case args ! input_idx of
                  Scalar v \<Rightarrow> args
                | Array sh d \<Rightarrow>
                    args[input_idx := Array [] [f (map (\<lambda>x. hd (data_of x)) args)]]) \<and>
         numba_funcify_Elemwise (op\<lparr>eo_inplace_pattern := []\<rparr>) node =
           Inr (Vectorized (UFunc (ScalarFn n f))) \<and>
         run_elemwise (Vectorized (UFunc (ScalarFn n f))) args =
           Inr (Scalar (f (map (\<lambda>x. hd (data_of x)) args)), args)"
proof -
  have pat: "eo_inplace_pattern op \<noteq> []"
    using assms(2) by auto
  have k: "k = InplaceScalar (UFunc (ScalarFn n f)) n input_idx"
    using assms(1-5) pat
    by (auto simp: numba_funcify_Elemwise_def create_vectorize_func_def bind_eq_Inr_iff
        split: if_splits)
  have idx: "input_idx < n"
    using assms(1-5) pat
    by (auto simp: numba_funcify_Elemwise_def create_vectorize_func_def bind_eq_Inr_iff
        split: if_splits)
  then have mem: "args ! input_idx \<in> set args"
    using assms(6) by simp
  have arr: "asarray (args ! input_idx) = Array [] [hd (data_of (args ! input_idx))]"
    using assms(7) mem by (intro asarray_rank0) auto
  have call: "call_ufunc (UFunc (ScalarFn n f)) (args @ [asarray (args ! input_idx)]) =
      Inr (Array [] [f (map (\<lambda>x. hd (data_of x)) args)])"
    unfolding arr by (rule call_ufunc_scalars_out[OF assms(6,7)])
  have it: "item (Array [] [f (map (\<lambda>x. hd (data_of x)) args)]) =
      Inr (f (map (\<lambda>x. hd (data_of x)) args))"
    by (simp add: item_def)
  have run: "run_elemwise k args =
      Inr (Scalar (f (map (\<lambda>x. hd (data_of x)) args)),
           case args ! input_idx of
             Scalar v \<Rightarrow> args
           | Array sh d \<Rightarrow>
               args[input_idx := Array [] [f (map (\<lambda>x. hd (data_of x)) args)]])"
    unfolding k by (simp add: run_elemwise_def assms(6) call it)
  have single: "\<not> length (outputs node) > 1"
    using assms(1) by (auto simp: numba_funcify_Elemwise_def create_vectorize_func_def)
  have out_of_place: "numba_funcify_Elemwise (op\<lparr>eo_inplace_pattern := []\<rparr>) node =
      Inr (Vectorized (UFunc (ScalarFn n f)))"
    using single assms(5)
    by (simp add: numba_funcify_Elemwise_def create_vectorize_func_def)
  have plain: "run_elemwise (Vectorized (UFunc (ScalarFn n f))) args =
      Inr (Scalar (f (map (\<lambda>x. hd (data_of x)) args)), args)"
    by (simp add: run_elemwise_def call_ufunc_scalars[OF assms(6,7)])
  show ?thesis using k arr call it run out_of_place plain by simp
qed

theorem inplace_scalar_target_witness:
  "numba_funcify_Elemwise
     \<lparr>eo_scalar_op_fn = ScalarFn 2 (\<lambda>xs. xs ! 0 + xs ! 1 :: int),
      eo_inplace_pattern = [(0, 0)]\<rparr>
     \<lparr>inputs = [\<lparr>ty_dtype = DType KInt 64, ty_ndim = 0, ty_shape = []\<rparr>,
                \<lparr>ty_dtype = DType KInt 64, ty_ndim = 0, ty_shape = []\<rparr>],
      outputs = [\<lparr>ty_dtype = DType KInt 64, ty_ndim = 0, ty_shape = []\<rparr>]\<rparr> =
     Inr (InplaceScalar (UFunc (ScalarFn 2 (\<lambda>xs. xs ! 0 + xs ! 1))) 2 0) \<and>
   run_elemwise (InplaceScalar (UFunc (ScalarFn 2 (\<lambda>xs. xs ! 0 + xs ! 1 :: int))) 2 0)
     [Scalar 1, Array [] [4]] = Inr (Scalar 5, [Scalar 1, Array [] [4]]) \<and>
   run_elemwise (InplaceScalar (UFunc (ScalarFn 2 (\<lambda>xs. xs ! 0 + xs ! 1 :: int))) 2 0)
     [Array [] [1], Array [] [4]] = Inr (Scalar 5, [Array [] [5], Array [] [4]]) \<and>
   run_elemwise (Vectorized (UFunc (ScalarFn 2 (\<lambda>xs. xs ! 0 + xs ! 1 :: int))))
     [Array [] [1], Array [] [4]] = Inr (Scalar 5, [Array [] [1], Array [] [4]])"
proof -
  let ?f = "\<lambda>xs. xs ! 0 + xs ! 1 :: int"
  let ?op = "\<lparr>eo_scalar_op_fn = ScalarFn 2 ?f, eo_inplace_pattern = [(0, 0)]\<rparr>"
  let ?t = "\<lparr>ty_dtype = DType KInt 64, ty_ndim = 0, ty_shape = []\<rparr>"
  let ?node = "\<lparr>inputs = [?t, ?t], outputs = [?t]\<rparr>"
  let ?k = "InplaceScalar (UFunc (ScalarFn 2 ?f)) 2 0"
  have h1: "numba_funcify_Elemwise ?op ?node = Inr ?k"
    by (simp add: numba_funcify_Elemwise_def create_vectorize_func_def getitem_def)
  have h2: "map_of (eo_inplace_pattern ?op) 0 = Some 0"
    by simp
  have h3: "getitem (inputs ?node) 0 = Inr ?t"
    by (simp add: getitem_def)
  have h4: "ty_ndim ?t = 0"
    by simp
  have h5: "eo_scalar_op_fn ?op = ScalarFn 2 ?f"
    by simp
  have h6: "length [Scalar 1, Array [] [4 :: int]] = 2"
    by simp
  have h7: "\<forall>x\<in>set [Scalar 1, Array [] [4 :: int]]. ndim x = 0 \<and> wf_val x"
    by simp
  have g6: "length [Array [] [1], Array [] [4 :: int]] = 2"
    by simp
  have g7: "\<forall>x\<in>set [Array [] [1], Array [] [4 :: int]]. ndim x = 0 \<and> wf_val x"
    by simp
  from inplace_scalar_target[OF h1 h2 h3 h4 h5 h6 h7]
  have a: "run_elemwise ?k [Scalar 1, Array [] [4]] = Inr (Scalar 5, [Scalar 1, Array [] [4]])"
    by simp
  from inplace_scalar_target[OF h1 h2 h3 h4 h5 g6 g7]
  have b: "run_elemwise ?k [Array [] [1], Array [] [4]] =
      Inr (Scalar 5, [Array [] [5], Array [] [4]])"
    and c: "run_elemwise (Vectorized (UFunc (ScalarFn 2 ?f))) [Array [] [1], Array [] [4]] =
      Inr (Scalar 5, [Array [] [1], Array [] [4]])"
    by simp_all
  from h1 a b c show ?thesis
    by simp
qed

section \<open>Index tuples and positions\<close>

lemma ndindex_iff: "idx \<in> set (ndindex sh) \<longleftrightarrow> list_all2 (<) idx sh"
proof (induction sh arbitrary: idx)
  case Nil
  then show ?case by auto
next
  case (Cons n sh)
  show ?case
  proof (cases idx)
    case Nil
    then show ?thesis by auto
  next
    case (Cons i rest)
    have "i # rest \<in> set (ndindex (n # sh)) \<longleftrightarrow> i < n \<and> rest \<in> set (ndindex sh)"
      by auto
    with Cons show ?thesis
      by (simp add: Cons.IH del: ndindex.simps)
  qed
qed

lemma concat_blocks:
  "concat (map (\<lambda>i. map (\<lambda>k. i * p + k) [0..<p]) [0..<n]) = [0..<n * p]"
proof (induction n)
  case 0
  then show ?case by simp
next
  case (Suc n)
  have "map (\<lambda>k. n * p + k) [0..<p] = [n * p..<n * p + p]"
    by (simp add: map_add_upt add.commute)
  moreover have "[0..<n * p] @ [n * p..<n * p + p] = [0..<n * p + p]"
    by (metis le_add1 upt_add_eq_append zero_le)
  ultimately show ?case
    using Suc by (simp add: add.commute)
qed

lemma ravel_ndindex: "map (ravel sh) (ndindex sh) = [0..<prod_list sh]"
proof (induction sh)
  case Nil
  then show ?case by simp
next
  case (Cons n sh)
  have "map (ravel (n # sh)) (ndindex (n # sh)) =
      concat (map (\<lambda>i. map (\<lambda>k. i * prod_list sh + k) (map (ravel sh) (ndindex sh))) [0..<n])"
    by (simp add: map_concat comp_def)
  also have "\<dots> = [0..<n * prod_list sh]"
    by (simp only: Cons.IH concat_blocks)
  finally show ?case by simp
qed

lemma length_ndindex [simp]: "length (ndindex sh) = prod_list sh"
  using arg_cong[OF ravel_ndindex, of length sh] by simp

lemma ravel_less: "list_all2 (<) idx sh \<Longrightarrow> ravel sh idx < prod_list sh"
proof -
  assume "list_all2 (<) idx sh"
  then have "idx \<in> set (ndindex sh)"
    by (simp add: ndindex_iff)
  then have "ravel sh idx \<in> set (map (ravel sh) (ndindex sh))"
    by simp
  then show ?thesis
    by (simp only: ravel_ndindex) simp
qed

lemma ndindex_nth_ravel:
  assumes "list_all2 (<) idx sh"
  shows "ndindex sh ! ravel sh idx = idx"
proof -
  from assms have "idx \<in> set (ndindex sh)"
    by (simp add: ndindex_iff)
  then obtain q where q: "q < length (ndindex sh)" and nth: "ndindex sh ! q = idx"
    by (auto simp: in_set_conv_nth)
  have "map (ravel sh) (ndindex sh) ! q = [0..<prod_list sh] ! q"
    by (simp only: ravel_ndindex)
  with q nth have "ravel sh idx = q"
    by simp
  with nth show ?thesis by simp
qed

text \<open>A well-formed array is the list of its elements at the index tuples of its shape.\<close>

lemma array_elements:
  assumes "length d = prod_list sh"
  shows "map (\<lambda>idx. d ! ravel sh idx) (ndindex sh) = d"
proof -
  have "map (\<lambda>idx. d ! ravel sh idx) (ndindex sh) = map ((!) d) (map (ravel sh) (ndindex sh))"
    by simp
  also have "\<dots> = map ((!) d) [0..<length d]"
    by (simp only: ravel_ndindex assms)
  finally show ?thesis by (simp add: map_nth)
qed

lemma map_ndindex_nth:
  assumes "list_all2 (<) idx sh"
  shows "map f (ndindex sh) ! ravel sh idx = f idx"
  using assms by (simp add: ravel_less ndindex_nth_ravel)

subsection \<open>Positions in a list\<close>

lemma index_of_less: "x \<in> set xs \<Longrightarrow> index_of xs x < length xs"
  by (induction xs) auto

lemma nth_index_of: "x \<in> set xs \<Longrightarrow> xs ! index_of xs x = x"
  by (induction xs) auto

lemma index_of_nth: "distinct xs \<Longrightarrow> i < length xs \<Longrightarrow> index_of xs (xs ! i) = i"
proof (induction xs arbitrary: i)
  case Nil
  then show ?case by simp
next
  case (Cons x xs)
  then show ?case
    by (cases i) auto
qed

lemma index_of_append_left: "x \<in> set xs \<Longrightarrow> index_of (xs @ ys) x = index_of xs x"
  by (induction xs) auto

lemma index_of_append_right:
  "x \<notin> set xs \<Longrightarrow> index_of (xs @ ys) x = length xs + index_of ys x"
  by (induction xs) auto

lemma index_of_upt: "a < n \<Longrightarrow> index_of [k..<k + n] (k + a) = a"
proof (induction n arbitrary: k a)
  case 0
  then show ?case by simp
next
  case (Suc n)
  show ?case
  proof (cases a)
    case 0
    then show ?thesis by (simp add: upt_rec)
  next
    case (Suc b)
    then have "b < n" using Suc.prems by simp
    from Suc.IH[OF this, of "Suc k"] Suc show ?thesis
      by (simp add: upt_rec)
  qed
qed

subsection \<open>Transposition\<close>

lemma normalize_axis_tuple_nat:
  assumes "distinct perm" and "\<forall>a\<in>set perm. a < n"
  shows "normalize_axis_tuple (map int perm) n = Inr perm"
proof -
  have "sequence (map (\<lambda>ax. normalize_axis_index ax n) (map int perm)) = Inr perm"
    using assms(2) by (simp add: sequence_map_Inr normalize_axis_index_nat)
  then show ?thesis
    using assms(1) by (simp add: normalize_axis_tuple_def distinct_remdups_id)
qed

lemma np_transpose_perm:
  assumes "distinct perm" and "\<forall>a\<in>set perm. a < length sh" and "length perm = length sh"
  shows "np_transpose (Array sh d) (map int perm) =
     Inr (Array (map (\<lambda>k. sh ! k) perm)
            (map (\<lambda>idx. d ! ravel sh (source_index perm idx))
               (ndindex (map (\<lambda>k. sh ! k) perm))))"
  using assms by (simp add: np_transpose_def normalize_axis_tuple_nat Let_def)

lemma source_index_identity:
  assumes "length idx = n"
  shows "source_index [0..<n] idx = idx"
proof -
  have "\<And>j. j < n \<Longrightarrow> index_of [0..<n] j = j"
    using index_of_upt[of _ n 0] by simp
  then have "map (\<lambda>j. idx ! index_of [0..<n] j) [0..<n] = map ((!) idx) [0..<n]"
    by simp
  also have "\<dots> = idx"
    using assms map_nth[of idx] by simp
  finally show ?thesis
    by (simp add: source_index_def)
qed

lemma np_transpose_identity:
  assumes "length d = prod_list sh"
  shows "np_transpose (Array sh d) (map int [0..<length sh]) = Inr (Array sh d)"
proof -
  have sh: "map (\<lambda>k. sh ! k) [0..<length sh] = sh"
    by (simp add: map_nth)
  have "map (\<lambda>idx. d ! ravel sh (source_index [0..<length sh] idx)) (ndindex sh) =
      map (\<lambda>idx. d ! ravel sh idx) (ndindex sh)"
    by (rule map_cong) (auto simp: ndindex_iff source_index_identity dest: list_all2_lengthD)
  then show ?thesis
    using assms by (simp add: np_transpose_perm sh array_elements)
qed

section \<open>What the dimshuffle kernel computes\<close>

lemma kept_axes_simps [simp]:
  "kept_axes [] = []"
  "kept_axes (None # es) = kept_axes es"
  "kept_axes (Some a # es) = a # kept_axes es"
  by (simp_all add: kept_axes_def)

lemma set_kept_axes: "set (kept_axes es) = {a. Some a \<in> set es}"
  by (induction es) (auto simp: kept_axes_def)

lemma kept_axes_append: "kept_axes (es @ fs) = kept_axes es @ kept_axes fs"
  by (simp add: kept_axes_def)

lemma shuffled_shape_simps [simp]:
  "shuffled_shape sh [] = []"
  "shuffled_shape sh (None # es) = 1 # shuffled_shape sh es"
  "shuffled_shape sh (Some a # es) = sh ! a # shuffled_shape sh es"
  by (simp_all add: shuffled_shape_def)

lemma length_shuffled_shape [simp]: "length (shuffled_shape sh es) = length es"
  by (simp add: shuffled_shape_def)

lemma prod_list_shuffled_shape:
  "prod_list (shuffled_shape sh es) = prod_list (map (\<lambda>a. sh ! a) (kept_axes es))"
proof (induction es)
  case Nil
  then show ?case by simp
next
  case (Cons e es)
  then show ?case by (cases e) simp_all
qed

text \<open>
  The position of an index tuple of the shuffled shape is the position, in the shape of
  the kept axes alone, of its entries at the axes shown.
\<close>

lemma ravel_shuffled_shape:
  assumes "distinct (kept_axes es)" and "list_all2 (<) js (shuffled_shape sh es)"
  shows "ravel (shuffled_shape sh es) js =
     ravel (map (\<lambda>a. sh ! a) (kept_axes es))
       (map (\<lambda>a. js ! index_of es (Some a)) (kept_axes es))"
  using assms
proof (induction es arbitrary: js)
  case Nil
  then show ?case by simp
next
  case (Cons e es)
  from Cons.prems(2) have "length js = Suc (length es)"
    by (auto dest: list_all2_lengthD)
  then obtain i js' where js: "js = i # js'"
    by (cases js) auto
  show ?case
  proof (cases e)
    case None
    with Cons.prems js have i: "i = 0" and v: "list_all2 (<) js' (shuffled_shape sh es)"
      and d: "distinct (kept_axes es)"
      by simp_all
    have "map (\<lambda>a. js ! index_of (e # es) (Some a)) (kept_axes es) =
        map (\<lambda>a. js' ! index_of es (Some a)) (kept_axes es)"
      using None js by simp
    with Cons.IH[OF d v] None js i show ?thesis by simp
  next
    case (Some b)
    with Cons.prems js have v: "list_all2 (<) js' (shuffled_shape sh es)"
      and d: "distinct (kept_axes es)" and nb: "b \<notin> set (kept_axes es)"
      by simp_all
    have eq: "map (\<lambda>a. (i # js') ! index_of (Some b # es) (Some a)) (kept_axes es) =
        map (\<lambda>a. js' ! index_of es (Some a)) (kept_axes es)"
      using nb by (intro map_cong) auto
    have h: "(i # js') ! index_of (Some b # es) (Some b) = i"
      by simp
    have "ravel (shuffled_shape sh (Some b # es)) (i # js') =
        i * prod_list (shuffled_shape sh es) + ravel (shuffled_shape sh es) js'"
      by simp
    also have "\<dots> = i * prod_list (map (\<lambda>a. sh ! a) (kept_axes es)) +
        ravel (map (\<lambda>a. sh ! a) (kept_axes es))
          (map (\<lambda>a. js' ! index_of es (Some a)) (kept_axes es))"
      by (simp only: Cons.IH[OF d v] prod_list_shuffled_shape)
    also have "\<dots> = ravel (map (\<lambda>a. sh ! a) (kept_axes (Some b # es)))
        (map (\<lambda>a. (i # js') ! index_of (Some b # es) (Some a)) (kept_axes (Some b # es)))"
      by (simp only: kept_axes_simps list.map ravel.simps eq h)
    finally show ?thesis
      using Some js by simp
  qed
qed

lemma ravel_trailing_ones:
  "length t = length s \<Longrightarrow> ravel (s @ replicate k 1) (t @ replicate k 0) = ravel s t"
proof (induction s arbitrary: t)
  case Nil
  then show ?case by (induction k) simp_all
next
  case (Cons n s)
  then obtain i t' where "t = i # t'"
    by (cases t) auto
  with Cons show ?case by simp
qed

lemma map_const_replicate:
  "\<forall>x\<in>set xs. f x = c \<Longrightarrow> map f xs = replicate (length xs) c"
  by (induction xs) simp_all

text \<open>The kept axes followed by the dropped axes are a permutation of all the axes.\<close>

lemma kept_dropped_permutation:
  assumes "valid_order n es"
  shows "distinct (kept_axes es @ dropped_axes n es)"
    and "\<forall>a\<in>set (kept_axes es @ dropped_axes n es). a < n"
    and "length (kept_axes es @ dropped_axes n es) = n"
proof -
  from assms have d: "distinct (kept_axes es)" and b: "\<forall>a\<in>set (kept_axes es). a < n"
    by (simp_all add: valid_order_def list_all_iff)
  have dis: "set (kept_axes es) \<inter> set (dropped_axes n es) = {}"
    by (auto simp: dropped_axes_def set_kept_axes)
  show dist: "distinct (kept_axes es @ dropped_axes n es)"
    using d dis by (simp add: dropped_axes_def)
  show "\<forall>a\<in>set (kept_axes es @ dropped_axes n es). a < n"
    using b by (auto simp: dropped_axes_def)
  have "set (kept_axes es @ dropped_axes n es) = {0..<n}"
    using b by (auto simp: dropped_axes_def set_kept_axes)
  then have "card (set (kept_axes es @ dropped_axes n es)) = n"
    by simp
  with dist show "length (kept_axes es @ dropped_axes n es) = n"
    using distinct_card by fastforce
qed

lemma source_index_kept_dropped:
  assumes "valid_order n es" and "length js = length es"
  shows "source_index (kept_axes es @ dropped_axes n es)
           (map (\<lambda>a. js ! index_of es (Some a)) (kept_axes es)
              @ replicate (length (dropped_axes n es)) 0) =
         dimshuffle_index n es js"
proof -
  let ?K = "kept_axes es" and ?D = "dropped_axes n es"
  let ?t = "map (\<lambda>a. js ! index_of es (Some a)) ?K @ replicate (length ?D) 0"
  have len: "length (?K @ ?D) = n"
    using kept_dropped_permutation(3)[OF assms(1)] .
  have "?t ! index_of (?K @ ?D) a =
      (if Some a \<in> set es then js ! index_of es (Some a) else 0)" if "a < n" for a
  proof (cases "Some a \<in> set es")
    case True
    then have mem: "a \<in> set ?K"
      by (simp add: set_kept_axes)
    then have "index_of (?K @ ?D) a = index_of ?K a" and "index_of ?K a < length ?K"
      and "?K ! index_of ?K a = a"
      by (simp_all add: index_of_append_left index_of_less nth_index_of)
    with True show ?thesis
      by (simp add: nth_append)
  next
    case False
    then have nk: "a \<notin> set ?K"
      by (simp add: set_kept_axes)
    with that False have "a \<in> set ?D"
      by (simp add: dropped_axes_def)
    then have "index_of ?D a < length ?D"
      by (rule index_of_less)
    with nk False show ?thesis
      by (simp add: index_of_append_right nth_append)
  qed
  then show ?thesis
    unfolding source_index_def dimshuffle_index_def len by simp
qed

lemma shuffled_shape_append:
  "shuffled_shape sh (es @ fs) = shuffled_shape sh es @ shuffled_shape sh fs"
  by (simp add: shuffled_shape_def)

lemma inserted_axes_iff:
  "k < length es \<Longrightarrow> k \<in> set (inserted_axes es) \<longleftrightarrow> es ! k = None"
  by (simp add: inserted_axes_def)

lemma kept_axes_nth:
  assumes "k < length es" and "es ! k = Some a"
  shows "length (kept_axes (take k es)) < length (kept_axes es)"
    and "kept_axes es ! length (kept_axes (take k es)) = a"
proof -
  have "es = take k es @ Some a # drop (Suc k) es"
    using assms by (metis id_take_nth_drop)
  then have "kept_axes es = kept_axes (take k es) @ a # kept_axes (drop (Suc k) es)"
    by (metis kept_axes_append kept_axes_simps(3))
  then show "length (kept_axes (take k es)) < length (kept_axes es)"
    and "kept_axes es ! length (kept_axes (take k es)) = a"
    by simp_all
qed

text \<open>
  The loop of the computed \<open>find_shape\<close>, entered at position \<open>k\<close> with the lengths of
  the axes before it in place, ends with the shuffled shape.
\<close>

lemma find_shape_loop_from:
  assumes "k \<le> length es"
  shows "find_shape_loop (inserted_axes es) (map (\<lambda>a. sh ! a) (kept_axes es))
       [k..<length es] (length (kept_axes (take k es)))
       (shuffled_shape sh (take k es) @ replicate (length es - k) 1) =
     Inr (shuffled_shape sh es)"
  using assms
proof (induction "length es - k" arbitrary: k)
  case 0
  then show ?case by simp
next
  case (Suc m)
  then have k: "k < length es" and m: "m = length es - Suc k"
    by simp_all
  have upt: "[k..<length es] = k # [Suc k..<length es]"
    using k by (simp add: upt_rec)
  have tk: "take (Suc k) es = take k es @ [es ! k]"
    using k by (simp add: take_Suc_conv_app_nth)
  have rep: "replicate (length es - k) (1 :: nat) = 1 # replicate (length es - Suc k) 1"
    using k by (metis Suc_diff_Suc replicate_Suc)
  have lk: "length (shuffled_shape sh (take k es)) = k"
    using k by simp
  show ?case
  proof (cases "es ! k")
    case None
    then have "k \<in> set (inserted_axes es)"
      using k by (simp add: inserted_axes_iff)
    moreover have "shuffled_shape sh (take k es) @ replicate (length es - k) 1 =
        shuffled_shape sh (take (Suc k) es) @ replicate (length es - Suc k) 1"
      using None rep by (simp add: tk shuffled_shape_append)
    moreover have "length (kept_axes (take k es)) = length (kept_axes (take (Suc k) es))"
      using None by (simp add: tk kept_axes_append)
    ultimately show ?thesis
      using Suc.hyps(1)[OF m] k by (simp add: upt)
  next
    case (Some a)
    then have notin: "k \<notin> set (inserted_axes es)"
      using k by (simp add: inserted_axes_iff)
    have get: "getitem (map (\<lambda>a. sh ! a) (kept_axes es)) (length (kept_axes (take k es))) =
        Inr (sh ! a)"
      using kept_axes_nth[OF k Some] by (simp add: getitem_def)
    have upd: "(shuffled_shape sh (take k es) @ replicate (length es - k) 1)[k := sh ! a] =
        shuffled_shape sh (take (Suc k) es) @ replicate (length es - Suc k) 1"
      using Some lk rep by (simp add: tk shuffled_shape_append list_update_append)
    have cnt: "length (kept_axes (take k es)) + 1 = length (kept_axes (take (Suc k) es))"
      using Some by (simp add: tk kept_axes_append)
    have "find_shape_loop (inserted_axes es) (map (\<lambda>a. sh ! a) (kept_axes es))
        [k..<length es] (length (kept_axes (take k es)))
        (shuffled_shape sh (take k es) @ replicate (length es - k) 1) =
      find_shape_loop (inserted_axes es) (map (\<lambda>a. sh ! a) (kept_axes es))
        [Suc k..<length es] (length (kept_axes (take k es)) + 1)
        ((shuffled_shape sh (take k es) @ replicate (length es - k) 1)[k := sh ! a])"
      apply (subst upt)
      apply (subst find_shape_loop.simps)
      apply (simp only: notin not_False_eq_True if_True get bind_Inr)
      done
    also have "\<dots> = find_shape_loop (inserted_axes es) (map (\<lambda>a. sh ! a) (kept_axes es))
        [Suc k..<length es] (length (kept_axes (take (Suc k) es)))
        (shuffled_shape sh (take (Suc k) es) @ replicate (length es - Suc k) 1)"
      apply (subst upd)
      apply (subst cnt)
      apply (rule refl)
      done
    also have "\<dots> = Inr (shuffled_shape sh es)"
      by (rule Suc.hyps(1)[OF m]) (use k in simp)
    finally show ?thesis .
  qed
qed

lemma find_shape_computed:
  "find_shape (ComputeShape (replicate (length es) 1) (length es) (inserted_axes es))
     (map (\<lambda>a. sh ! a) (kept_axes es)) = Inr (shuffled_shape sh es)"
  using find_shape_loop_from[of 0 es sh] by simp

lemma shuffled_shape_no_kept:
  "kept_axes es = [] \<Longrightarrow> shuffled_shape sh es = replicate (length es) 1"
proof (induction es)
  case Nil
  then show ?case by simp
next
  case (Cons e es)
  then show ?case by (cases e) simp_all
qed

lemma static_shape_known:
  assumes "length tys = length s"
    and "list_all (\<lambda>(l, n). l = None \<or> l = Some n) (zip tys s)"
    and "list_all (\<lambda>l. l \<noteq> None) tys"
  shows "map the tys = s"
  using assms by (induction tys s rule: list_induct2) auto

lemma enumerate_identity:
  "list_all (\<lambda>(i, j). i = j) (enumerate k xs) \<longleftrightarrow> xs = [k..<k + length xs]"
proof (induction xs arbitrary: k)
  case Nil
  then show ?case by simp
next
  case (Cons x xs)
  have "k < k + length (x # xs)"
    by simp
  then have "[k..<k + length (x # xs)] = k # [Suc k..<k + length (x # xs)]"
    by (rule upt_conv_Cons)
  then have "[k..<k + length (x # xs)] = k # [Suc k..<Suc k + length xs]"
    by simp
  then show ?case
    using Cons.IH[of "Suc k"] by auto
qed

lemma length_kept_inserted:
  "length (kept_axes es) + length (inserted_axes es) = length es"
proof -
  have "length (inserted_axes es) = length (filter (\<lambda>e. e = None) es)"
  proof -
    have "inserted_axes es = filter (\<lambda>p. es ! p = None) [0..<length es]"
      by (simp add: inserted_axes_def)
    moreover have "map (\<lambda>p. es ! p) (filter (\<lambda>p. es ! p = None) [0..<length es]) =
        filter (\<lambda>e. e = None) (map (\<lambda>p. es ! p) [0..<length es])"
      by (simp add: filter_map comp_def)
    ultimately have "length (inserted_axes es) =
        length (filter (\<lambda>e. e = None) (map (\<lambda>p. es ! p) [0..<length es]))"
      by (metis length_map)
    then show ?thesis
      by (simp add: map_nth)
  qed
  moreover have "length (kept_axes es) = length (filter (\<lambda>e. e \<noteq> None) es)"
    by (simp add: kept_axes_def)
  ultimately show ?thesis
    using sum_length_filter_compl[of "\<lambda>e. e \<noteq> None" es] by simp
qed

lemma transposed_shape:
  assumes "\<forall>a\<in>set (dropped_axes n es). sh ! a = 1"
  shows "map (\<lambda>k. sh ! k) (kept_axes es @ dropped_axes n es) =
     map (\<lambda>a. sh ! a) (kept_axes es) @ replicate (length (dropped_axes n es)) 1"
  using assms by (simp add: map_const_replicate)

lemma prod_list_replicate_one [simp]: "prod_list (replicate k (1 :: nat)) = 1"
  by (induction k) simp_all

lemma shuffled_shape_nth:
  "p < length es \<Longrightarrow>
     shuffled_shape sh es ! p = (case es ! p of Some a \<Rightarrow> sh ! a | None \<Rightarrow> 1)"
  by (simp add: shuffled_shape_def)

text \<open>
  The elements of the transposed array, read in the order of the shuffled shape, are the
  elements the dimshuffle is to show.
\<close>

lemma transposed_data:
  assumes valid: "valid_order n es" and n: "length sh = n"
    and ones: "\<forall>a\<in>set (dropped_axes n es). sh ! a = 1"
  shows "map (\<lambda>t. d ! ravel sh (source_index (kept_axes es @ dropped_axes n es) t))
       (ndindex (map (\<lambda>k. sh ! k) (kept_axes es @ dropped_axes n es))) =
     map (\<lambda>j. d ! ravel sh (dimshuffle_index n es j)) (ndindex (shuffled_shape sh es))"
proof -
  let ?K = "kept_axes es" and ?D = "dropped_axes n es"
  let ?P = "kept_axes es @ dropped_axes n es"
  let ?NS = "shuffled_shape sh es"
  let ?sht = "map (\<lambda>k. sh ! k) ?P"
  let ?f = "\<lambda>t. d ! ravel sh (source_index ?P t)"
  let ?dt = "map ?f (ndindex ?sht)"
  from valid have dist: "distinct ?K"
    by (simp add: valid_order_def)
  have sht: "?sht = map (\<lambda>a. sh ! a) ?K @ replicate (length ?D) 1"
    using ones by (rule transposed_shape)
  have len: "length ?dt = prod_list ?NS"
    by (simp add: prod_list_shuffled_shape map_const_replicate[OF ones])
  have cell: "?dt ! ravel ?NS j = d ! ravel sh (dimshuffle_index n es j)"
    if j: "j \<in> set (ndindex ?NS)" for j
  proof -
    let ?t = "map (\<lambda>a. j ! index_of es (Some a)) ?K @ replicate (length ?D) 0"
    from j have v: "list_all2 (<) j ?NS"
      by (simp add: ndindex_iff)
    then have lj: "length j = length es"
      by (auto dest: list_all2_lengthD)
    have "j ! index_of es (Some a) < sh ! a" if "a \<in> set ?K" for a
    proof -
      from that have mem: "Some a \<in> set es"
        by (simp add: set_kept_axes)
      then have p: "index_of es (Some a) < length es" and e: "es ! index_of es (Some a) = Some a"
        by (simp_all add: index_of_less nth_index_of)
      from v p have "j ! index_of es (Some a) < ?NS ! index_of es (Some a)"
        by (simp add: list_all2_conv_all_nth)
      with p e show ?thesis
        by (simp add: shuffled_shape_nth)
    qed
    then have "list_all2 (<) (map (\<lambda>a. j ! index_of es (Some a)) ?K) (map (\<lambda>a. sh ! a) ?K)"
      by (simp add: list_all2_conv_all_nth)
    moreover have "list_all2 (<) (replicate (length ?D) (0 :: nat)) (replicate (length ?D) 1)"
      by (simp add: list_all2_conv_all_nth)
    ultimately have tv: "list_all2 (<) ?t ?sht"
      unfolding sht by (rule list_all2_appendI)
    have "ravel ?NS j =
        ravel (map (\<lambda>a. sh ! a) ?K) (map (\<lambda>a. j ! index_of es (Some a)) ?K)"
      using dist v by (rule ravel_shuffled_shape)
    also have "\<dots> = ravel ?sht ?t"
      unfolding sht by (rule ravel_trailing_ones[symmetric]) simp
    finally have "?dt ! ravel ?NS j = ?dt ! ravel ?sht ?t"
      by simp
    also have "\<dots> = ?f ?t"
      using tv by (rule map_ndindex_nth)
    also have "\<dots> = d ! ravel sh (dimshuffle_index n es j)"
      using source_index_kept_dropped[OF valid lj] by simp
    finally show ?thesis .
  qed
  have "map (\<lambda>j. ?dt ! ravel ?NS j) (ndindex ?NS) = ?dt"
    using len by (rule array_elements)
  moreover have "map (\<lambda>j. ?dt ! ravel ?NS j) (ndindex ?NS) =
      map (\<lambda>j. d ! ravel sh (dimshuffle_index n es j)) (ndindex ?NS)"
    using cell by (intro map_cong) auto
  ultimately show ?thesis by simp
qed

text \<open>The transposition the kernel does, skipped or not, is that of NumPy.\<close>

lemma transpose_built:
  assumes "distinct perm" and "\<forall>a\<in>set perm. a < length sh" and "length perm = length sh"
    and "length d = prod_list sh"
  shows "transpose (if list_all (\<lambda>(i, j). i = j) (enumerate 0 perm) then PassThrough
                    else Transpose perm) (Array sh d) =
     Inr (Array (map (\<lambda>k. sh ! k) perm)
            (map (\<lambda>idx. d ! ravel sh (source_index perm idx))
               (ndindex (map (\<lambda>k. sh ! k) perm))))"
proof (cases "list_all (\<lambda>(i, j). i = j) (enumerate 0 perm)")
  case True
  then have "perm = [0..<length sh]"
    using assms(3) by (simp add: enumerate_identity)
  then have e1: "np_transpose (Array sh d) (map int perm) = Inr (Array sh d)"
    using np_transpose_identity[OF assms(4)] by simp
  have "transpose PassThrough (Array sh d) = Inr (Array sh d)"
    by simp
  also have "\<dots> = np_transpose (Array sh d) (map int perm)"
    by (rule e1[symmetric])
  also have "\<dots> = Inr (Array (map (\<lambda>k. sh ! k) perm)
            (map (\<lambda>idx. d ! ravel sh (source_index perm idx))
               (ndindex (map (\<lambda>k. sh ! k) perm))))"
    by (rule np_transpose_perm[OF assms(1-3)])
  finally show ?thesis
    using True by (simp only: if_True)
next
  case False
  with np_transpose_perm[OF assms(1-3), of d] show ?thesis
    by simp
qed

lemma asarray_Array [simp]: "asarray (Array sh d) = Array sh d"
  by (simp add: asarray_def)

lemma asarray_idem [simp]: "asarray (asarray x) = asarray x"
  by (cases x) (simp_all add: asarray_def)

lemma run_dimshuffle_asarray: "run_dimshuffle k (asarray x) = run_dimshuffle k x"
  by (cases k) simp_all

lemma asarray_dimshuffled [simp]: "asarray (dimshuffled sh d es) = dimshuffled sh d es"
  by (simp add: dimshuffled_def)

lemma all_ones:
  assumes "\<forall>a<length sh. sh ! a = 1"
  shows "sh = replicate (length sh) (1 :: nat)"
  using assms by (simp add: list_eq_iff_nth_eq)

text \<open>
  The kernel built for a valid new order computes the dimshuffle: on an array whose
  dropped axes have length 1 it returns the array of the shuffled shape with the elements
  the new order shows, or that array's one element as a bare scalar when the new order
  is empty.
\<close>

lemma run_dimshuffle_of:
  assumes valid: "valid_order n es" and n: "length sh = n"
    and wf: "length d = prod_list sh"
    and ones: "\<forall>a\<in>set (dropped_axes n es). sh ! a = 1"
    and static: "static_shape_agrees node (shuffled_shape sh es)"
  shows "\<exists>k y. numba_funcify_DimShuffle (dimshuffle_op_of n es ip) node = Inr k \<and>
     run_dimshuffle k (Array sh d) = Inr y \<and>
     asarray y = dimshuffled sh d es \<and>
     (es \<noteq> [] \<longrightarrow> y = dimshuffled sh d es)"
proof -
  let ?K = "kept_axes es" and ?D = "dropped_axes n es"
  let ?P = "kept_axes es @ dropped_axes n es"
  let ?NS = "shuffled_shape sh es"
  define sht where "sht = map (\<lambda>k. sh ! k) ?P"
  define dt where "dt = map (\<lambda>t. d ! ravel sh (source_index ?P t)) (ndindex sht)"
  define tr where
    "tr = (if list_all (\<lambda>(i, j). i = j) (enumerate 0 ?P) then PassThrough else Transpose ?P)"
  from static obtain outp outs where out: "outputs node = outp # outs"
    and lt: "length (ty_shape outp) = length ?NS"
    and agree: "list_all (\<lambda>(l, n). l = None \<or> l = Some n) (zip (ty_shape outp) ?NS)"
    by (auto simp: static_shape_agrees_def split: list.splits)
  define fs where
    "fs = (if length ?K > 0
           then (if list_all (\<lambda>l. l \<noteq> None) (ty_shape outp)
                 then StaticShape (map the (ty_shape outp))
                 else ComputeShape (replicate (length es) 1) (length es) (inserted_axes es))
           else TemplateShape (replicate (length es) 1))"
  define k where
    "k = (if length es > 0 then DimshuffleReshape tr fs (length ?K) ip else DimshuffleItem)"
  have m: "length ?K + length (inserted_axes es) = length es"
    by (rule length_kept_inserted)
  have build: "numba_funcify_DimShuffle (dimshuffle_op_of n es ip) node = Inr k"
    unfolding numba_funcify_DimShuffle_def dimshuffle_op_of_def Let_def
      dimshuffle_op.select_convs m k_def tr_def fs_def
    by (simp add: getitem_def out)
  note perm = kept_dropped_permutation[OF valid]
  have tr: "transpose tr (Array sh d) = Inr (Array sht dt)"
    unfolding tr_def sht_def dt_def using perm wf n by (intro transpose_built) simp_all
  have sht: "sht = map (\<lambda>a. sh ! a) ?K @ replicate (length ?D) 1"
    unfolding sht_def using ones by (rule transposed_shape)
  have tk: "take (length ?K) sht = map (\<lambda>a. sh ! a) ?K"
    unfolding sht by simp
  have fs: "find_shape fs (map (\<lambda>a. sh ! a) ?K) = Inr ?NS"
  proof (cases "length ?K > 0")
    case True
    show ?thesis
    proof (cases "list_all (\<lambda>l. l \<noteq> None) (ty_shape outp)")
      case all: True
      have "map the (ty_shape outp) = ?NS"
        using lt agree all by (rule static_shape_known)
      with True all show ?thesis by (simp add: fs_def)
    next
      case False
      with True have "fs =
          ComputeShape (replicate (length es) 1) (length es) (inserted_axes es)"
        by (simp add: fs_def)
      then show ?thesis
        by (simp only: find_shape_computed)
    qed
  next
    case False
    then show ?thesis by (simp add: fs_def shuffled_shape_no_kept)
  qed
  have dt: "dt = map (\<lambda>j. d ! ravel sh (dimshuffle_index n es j)) (ndindex ?NS)"
    unfolding dt_def sht_def using valid n ones by (rule transposed_data)
  have len: "prod_list ?NS = length dt"
    unfolding dt_def sht_def
    by (simp add: prod_list_shuffled_shape map_const_replicate[OF ones])
  show ?thesis
  proof (cases "es = []")
    case False
    then have k: "k = DimshuffleReshape tr fs (length ?K) ip"
      by (simp add: k_def)
    have "run_dimshuffle k (Array sh d) = Inr (Array ?NS dt)"
      unfolding k by (simp add: tr tk fs np_reshape_def len)
    moreover have "Array ?NS dt = dimshuffled sh d es"
      unfolding dimshuffled_def n using dt by simp
    ultimately show ?thesis
      using build False by (intro exI[of _ k] exI[of _ "dimshuffled sh d es"]) simp
  next
    case True
    then have k: "k = DimshuffleItem"
      by (simp add: k_def)
    from True have "\<forall>a<length sh. sh ! a = 1"
      using ones n by (simp add: dropped_axes_def)
    then have sh1: "sh = replicate n 1"
      using all_ones n by blast
    then have p1: "prod_list sh = 1"
      by (metis prod_list_replicate_one)
    with wf obtain v where d: "d = [v]"
      by (cases d) simp_all
    have run: "run_dimshuffle k (Array sh d) = Inr (Scalar v)"
      unfolding k using d by (simp add: item_def)
    have "list_all2 (<) (dimshuffle_index n [] []) sh"
      using sh1 by (simp add: dimshuffle_index_def list_all2_conv_all_nth)
    then have "ravel sh (dimshuffle_index n [] []) < prod_list sh"
      by (rule ravel_less)
    with p1 have "ravel sh (dimshuffle_index n [] []) = 0"
      by simp
    then have "asarray (Scalar v) = dimshuffled sh d es"
      using True d n by (simp add: dimshuffled_def asarray_def)
    with run build True show ?thesis
      by (intro exI[of _ k] exI[of _ "Scalar v"]) simp
  qed
qed

section \<open>The inverse of a dimshuffle\<close>

lemma index_of_kept:
  "distinct (kept_axes es) \<Longrightarrow> p < length es \<Longrightarrow> es ! p = Some a \<Longrightarrow>
     index_of es (Some a) = p"
proof (induction es arbitrary: p)
  case Nil
  then show ?case by simp
next
  case (Cons e es)
  show ?case
  proof (cases p)
    case 0
    with Cons.prems show ?thesis by simp
  next
    case (Suc q)
    with Cons.prems have q: "q < length es" and eq: "es ! q = Some a"
      by simp_all
    then have "Some a \<in> set es"
      by (metis nth_mem)
    then have mem: "a \<in> set (kept_axes es)"
      by (simp add: set_kept_axes)
    have ne: "e \<noteq> Some a"
      using Cons.prems(1) mem by (cases e) auto
    have "distinct (kept_axes es)"
      using Cons.prems(1) by (cases e) simp_all
    from Cons.IH[OF this q eq] ne Suc show ?thesis by simp
  qed
qed

lemma index_of_first:
  "a < length xs \<Longrightarrow> xs ! a = x \<Longrightarrow> \<forall>b<a. xs ! b \<noteq> x \<Longrightarrow> index_of xs x = a"
proof (induction xs arbitrary: a)
  case Nil
  then show ?case by simp
next
  case (Cons y ys)
  show ?case
  proof (cases a)
    case 0
    with Cons.prems show ?thesis by simp
  next
    case (Suc c)
    with Cons.prems have "y \<noteq> x"
      by (metis nth_Cons_0 zero_less_Suc)
    moreover have "index_of ys x = c"
      using Cons.prems Suc by (intro Cons.IH) auto
    ultimately show ?thesis
      using Suc by simp
  qed
qed

lemma length_inverse_order [simp]: "length (inverse_order n es) = n"
  by (simp add: inverse_order_def)

lemma inverse_order_nth:
  "a < n \<Longrightarrow> inverse_order n es ! a =
     (if Some a \<in> set es then Some (index_of es (Some a)) else None)"
  by (simp add: inverse_order_def)

lemma set_inverse_order:
  "Some p \<in> set (inverse_order n es) \<longleftrightarrow>
     (\<exists>a<n. Some a \<in> set es \<and> index_of es (Some a) = p)"
  by (auto simp: inverse_order_def split: if_splits)

text \<open>
  A result axis that shows an input axis is found by the inverse order at that input
  axis, and nowhere else.
\<close>

lemma inverse_order_shown:
  assumes valid: "valid_order n es" and p: "p < length es" and e: "es ! p = Some a"
  shows "a < n" and "Some p \<in> set (inverse_order n es)"
    and "index_of (inverse_order n es) (Some p) = a"
proof -
  from valid have dist: "distinct (kept_axes es)" and below: "\<forall>b\<in>set (kept_axes es). b < n"
    by (simp_all add: valid_order_def list_all_iff)
  from p e have mem: "Some a \<in> set es"
    by (metis nth_mem)
  then show a: "a < n"
    using below by (simp add: set_kept_axes)
  have pos: "index_of es (Some a) = p"
    using dist p e by (rule index_of_kept)
  with a mem show "Some p \<in> set (inverse_order n es)"
    by (auto simp: set_inverse_order)
  have at: "inverse_order n es ! a = Some p"
    using a mem pos by (simp add: inverse_order_nth)
  have first: "inverse_order n es ! b \<noteq> Some p" if "b < a" for b
  proof
    assume "inverse_order n es ! b = Some p"
    with that a have "Some b \<in> set es" and "index_of es (Some b) = p"
      by (auto simp: inverse_order_nth split: if_splits)
    then have "es ! p = Some b"
      using nth_index_of by fastforce
    with e that show False by simp
  qed
  show "index_of (inverse_order n es) (Some p) = a"
    using a at first by (intro index_of_first) simp_all
qed

lemma inverse_order_inserted:
  assumes "valid_order n es" and "p < length es" and "es ! p = None"
  shows "Some p \<notin> set (inverse_order n es)"
proof
  assume "Some p \<in> set (inverse_order n es)"
  then obtain a where "Some a \<in> set es" and "index_of es (Some a) = p"
    by (auto simp: set_inverse_order)
  then have "es ! p = Some a"
    using nth_index_of by fastforce
  with assms(3) show False by simp
qed

lemma valid_inverse_order:
  assumes "valid_order n es"
  shows "valid_order (length es) (inverse_order n es)"
proof -
  let ?inv = "inverse_order n es"
  have below: "a < length es" if "a \<in> set (kept_axes ?inv)" for a
  proof -
    from that have "Some a \<in> set ?inv"
      by (simp add: set_kept_axes)
    then show ?thesis
      by (auto simp: set_inverse_order index_of_less)
  qed
  have "inj_on (\<lambda>a. index_of es (Some a)) {a. Some a \<in> set es}"
  proof (rule inj_onI)
    fix a b
    assume A: "a \<in> {a. Some a \<in> set es}" and B: "b \<in> {a. Some a \<in> set es}"
      and E: "index_of es (Some a) = index_of es (Some b)"
    from A have 1: "es ! index_of es (Some a) = Some a"
      by (simp add: nth_index_of)
    from B have 2: "es ! index_of es (Some b) = Some b"
      by (simp add: nth_index_of)
    from 1 2 E show "a = b"
      by (metis option.inject)
  qed
  moreover have "kept_axes ?inv =
      map (\<lambda>a. index_of es (Some a)) (filter (\<lambda>a. Some a \<in> set es) [0..<n])"
  proof -
    have "filter (\<lambda>e. e \<noteq> None) ?inv =
        map (\<lambda>a. Some (index_of es (Some a))) (filter (\<lambda>a. Some a \<in> set es) [0..<n])"
      unfolding inverse_order_def by (induction n) simp_all
    then show ?thesis
      by (simp add: kept_axes_def comp_def)
  qed
  ultimately have "distinct (kept_axes ?inv)"
    by (simp add: distinct_map inj_on_def)
  with below show ?thesis
    by (simp add: valid_order_def list_all_iff)
qed

lemma shuffled_shape_inverse:
  assumes valid: "valid_order n es" and n: "length sh = n"
    and ones: "\<forall>a\<in>set (dropped_axes n es). sh ! a = 1"
  shows "shuffled_shape (shuffled_shape sh es) (inverse_order n es) = sh"
proof -
  have at: "shuffled_shape (shuffled_shape sh es) (inverse_order n es) ! a = sh ! a"
    if a: "a < n" for a
  proof (cases "Some a \<in> set es")
    case True
    then have "index_of es (Some a) < length es" and "es ! index_of es (Some a) = Some a"
      by (simp_all add: index_of_less nth_index_of)
    with True a show ?thesis
      by (simp add: shuffled_shape_nth inverse_order_nth)
  next
    case False
    with a have "a \<in> set (dropped_axes n es)"
      by (simp add: dropped_axes_def)
    with ones have "sh ! a = 1" by simp
    with False a show ?thesis
      by (simp add: shuffled_shape_nth inverse_order_nth)
  qed
  show ?thesis
  proof (rule nth_equalityI)
    show "length (shuffled_shape (shuffled_shape sh es) (inverse_order n es)) = length sh"
      using n by simp
  next
    fix a
    assume "a < length (shuffled_shape (shuffled_shape sh es) (inverse_order n es))"
    then have "a < n" by simp
    then show "shuffled_shape (shuffled_shape sh es) (inverse_order n es) ! a = sh ! a"
      by (rule at)
  qed
qed

lemma dropped_inverse_ones:
  assumes valid: "valid_order n es"
  shows "\<forall>p\<in>set (dropped_axes (length es) (inverse_order n es)). shuffled_shape sh es ! p = 1"
proof
  fix p
  assume "p \<in> set (dropped_axes (length es) (inverse_order n es))"
  then have p: "p < length es" and notin: "Some p \<notin> set (inverse_order n es)"
    by (simp_all add: dropped_axes_def)
  have "es ! p = None"
  proof (cases "es ! p")
    case None
    then show ?thesis .
  next
    case (Some a)
    from inverse_order_shown(2)[OF valid p Some] notin show ?thesis by simp
  qed
  with p show "shuffled_shape sh es ! p = 1"
    by (simp add: shuffled_shape_nth)
qed

text \<open>Shuffling by the inverse order what a new order has shuffled gives the array back.\<close>

lemma dimshuffled_inverse:
  assumes valid: "valid_order n es" and n: "length sh = n"
    and wf: "length d = prod_list sh"
    and ones: "\<forall>a\<in>set (dropped_axes n es). sh ! a = 1"
  shows "dimshuffled (shuffled_shape sh es)
       (map (\<lambda>j. d ! ravel sh (dimshuffle_index n es j)) (ndindex (shuffled_shape sh es)))
       (inverse_order n es) = Array sh d"
proof -
  let ?NS = "shuffled_shape sh es" and ?inv = "inverse_order n es"
  let ?d1 = "map (\<lambda>j. d ! ravel sh (dimshuffle_index n es j)) (ndindex ?NS)"
  let ?m = "length es"
  have shape: "shuffled_shape ?NS ?inv = sh"
    using valid n ones by (rule shuffled_shape_inverse)
  have cell: "?d1 ! ravel ?NS (dimshuffle_index ?m ?inv i) = d ! ravel sh i"
    if i: "i \<in> set (ndindex sh)" for i
  proof -
    let ?j = "dimshuffle_index ?m ?inv i"
    from i have iv: "list_all2 (<) i sh"
      by (simp add: ndindex_iff)
    then have li: "length i = n" and ib: "\<And>a. a < n \<Longrightarrow> i ! a < sh ! a"
      using n by (auto simp: list_all2_conv_all_nth)
    have jp: "?j ! p = (if Some p \<in> set ?inv then i ! index_of ?inv (Some p) else 0)"
      if "p < ?m" for p
      using that by (simp add: dimshuffle_index_def)
    have shown: "?j ! p = i ! a" if "p < ?m" and "es ! p = Some a" for p a
      using inverse_order_shown[OF valid that] jp[OF that(1)] by simp
    have "?j ! p < ?NS ! p" if p: "p < ?m" for p
    proof (cases "es ! p")
      case None
      with inverse_order_inserted[OF valid p] jp[OF p] p show ?thesis
        by (simp add: shuffled_shape_nth)
    next
      case (Some a)
      with shown[OF p Some] inverse_order_shown(1)[OF valid p Some] ib p show ?thesis
        by (simp add: shuffled_shape_nth)
    qed
    then have jv: "list_all2 (<) ?j ?NS"
      by (simp add: list_all2_conv_all_nth dimshuffle_index_def)
    have at: "dimshuffle_index n es ?j ! a = i ! a" if a: "a < n" for a
    proof (cases "Some a \<in> set es")
      case True
      then have p: "index_of es (Some a) < ?m" and e: "es ! index_of es (Some a) = Some a"
        by (simp_all add: index_of_less nth_index_of)
      from shown[OF p e] True a show ?thesis
        by (simp add: dimshuffle_index_def)
    next
      case False
      with a have "a \<in> set (dropped_axes n es)"
        by (simp add: dropped_axes_def)
      with ones have "sh ! a = 1" by simp
      with ib[OF a] have "i ! a = 0" by simp
      with False a show ?thesis
        by (simp add: dimshuffle_index_def)
    qed
    have same: "dimshuffle_index n es ?j = i"
    proof (rule nth_equalityI)
      show "length (dimshuffle_index n es ?j) = length i"
        using li by (simp add: dimshuffle_index_def)
    next
      fix a
      assume "a < length (dimshuffle_index n es ?j)"
      then have "a < n"
        by (simp add: dimshuffle_index_def)
      then show "dimshuffle_index n es ?j ! a = i ! a"
        by (rule at)
    qed
    have "?d1 ! ravel ?NS ?j = d ! ravel sh (dimshuffle_index n es ?j)"
      using jv by (rule map_ndindex_nth)
    with same show ?thesis by simp
  qed
  have "map (\<lambda>i. ?d1 ! ravel ?NS (dimshuffle_index ?m ?inv i)) (ndindex sh) =
      map (\<lambda>i. d ! ravel sh i) (ndindex sh)"
    using cell by (intro map_cong) auto
  also have "\<dots> = d"
    using wf by (rule array_elements)
  finally show ?thesis
    unfolding dimshuffled_def shape by simp
qed

text \<open>
  C7. Take a new order that shows each input axis at most once, an array whose dropped
  axes have length 1, and nodes whose static shapes agree with the shapes met. The
  kernel built for the new order returns the shuffled array; the kernel built for the
  inverse order, called on that result, returns the original array, shape and elements.
  For an input of rank 0 the result is the element as a bare scalar.
\<close>

theorem dimshuffle_round_trip:
  assumes "valid_order n new_order" and "length sh = n"
    and "length d = prod_list sh"
    and "\<forall>a\<in>set (dropped_axes n new_order). sh ! a = 1"
    and "static_shape_agrees node1 (shuffled_shape sh new_order)"
    and "static_shape_agrees node2 sh"
  shows "\<exists>k1 k2 y z.
     numba_funcify_DimShuffle (dimshuffle_op_of n new_order inplace1) node1 = Inr k1 \<and>
     numba_funcify_DimShuffle
       (dimshuffle_op_of (length new_order) (inverse_order n new_order) inplace2) node2 =
       Inr k2 \<and>
     run_dimshuffle k1 (Array sh d) = Inr y \<and>
     asarray y = dimshuffled sh d new_order \<and>
     run_dimshuffle k2 y = Inr z \<and>
     asarray z = Array sh d \<and>
     (0 < n \<longrightarrow> z = Array sh d)"
proof -
  let ?NS = "shuffled_shape sh new_order" and ?inv = "inverse_order n new_order"
  let ?d1 = "map (\<lambda>j. d ! ravel sh (dimshuffle_index n new_order j)) (ndindex ?NS)"
  from run_dimshuffle_of[OF assms(1-5), of inplace1]
  obtain k1 y where k1: "numba_funcify_DimShuffle (dimshuffle_op_of n new_order inplace1) node1
      = Inr k1"
    and y: "run_dimshuffle k1 (Array sh d) = Inr y"
    and ay: "asarray y = dimshuffled sh d new_order"
    by blast
  have ay': "asarray y = Array ?NS ?d1"
    using ay assms(2) by (simp add: dimshuffled_def)
  have valid2: "valid_order (length new_order) ?inv"
    using assms(1) by (rule valid_inverse_order)
  have len2: "length ?NS = length new_order"
    by simp
  have wf2: "length ?d1 = prod_list ?NS"
    by simp
  have ones2: "\<forall>p\<in>set (dropped_axes (length new_order) ?inv). ?NS ! p = 1"
    using assms(1) by (rule dropped_inverse_ones)
  have shape2: "shuffled_shape ?NS ?inv = sh"
    using assms(1,2,4) by (rule shuffled_shape_inverse)
  have static2: "static_shape_agrees node2 (shuffled_shape ?NS ?inv)"
    using assms(6) by (simp only: shape2)
  from run_dimshuffle_of[OF valid2 len2 wf2 ones2 static2, of inplace2]
  obtain k2 z where k2: "numba_funcify_DimShuffle
        (dimshuffle_op_of (length new_order) ?inv inplace2) node2 = Inr k2"
    and z: "run_dimshuffle k2 (Array ?NS ?d1) = Inr z"
    and az: "asarray z = dimshuffled ?NS ?d1 ?inv"
    and nz: "?inv \<noteq> [] \<longrightarrow> z = dimshuffled ?NS ?d1 ?inv"
    by blast
  have inv: "dimshuffled ?NS ?d1 ?inv = Array sh d"
    using assms(1-4) by (rule dimshuffled_inverse)
  have z': "run_dimshuffle k2 y = Inr z"
    using z run_dimshuffle_asarray[of k2 y] by (simp only: ay')
  have "0 < n \<longrightarrow> ?inv \<noteq> []"
    by (auto simp: inverse_order_def)
  with nz inv have "0 < n \<longrightarrow> z = Array sh d"
    by simp
  with k1 k2 y ay z' az inv show ?thesis
    by (intro exI[of _ k1] exI[of _ k2] exI[of _ y] exI[of _ z]) simp
qed

theorem dimshuffle_round_trip_witness:
  "dimshuffle_op_of 3 [Some 2, Some 0] False =
     \<lparr>ds_shuffle = [2, 0], ds_transposition = [2, 0, 1], ds_augment = [],
      ds_inplace = False\<rparr> \<and>
   dimshuffle_op_of 2 (inverse_order 3 [Some 2, Some 0]) False =
     \<lparr>ds_shuffle = [1, 0], ds_transposition = [1, 0], ds_augment = [1],
      ds_inplace = False\<rparr> \<and>
   bind (numba_funcify_DimShuffle (dimshuffle_op_of 3 [Some 2, Some 0] False)
           \<lparr>inputs = [], outputs = [\<lparr>ty_dtype = DType KInt 64, ty_ndim = 2,
                                       ty_shape = [None, None]\<rparr>]\<rparr>)
     (\<lambda>k1. run_dimshuffle k1 (Array [2, 1, 3] [1, 2, 3, 4, 5, 6 :: int])) =
     Inr (Array [3, 2] [1, 4, 2, 5, 3, 6]) \<and>
   bind (numba_funcify_DimShuffle (dimshuffle_op_of 3 [Some 2, Some 0] False)
           \<lparr>inputs = [], outputs = [\<lparr>ty_dtype = DType KInt 64, ty_ndim = 2,
                                       ty_shape = [None, None]\<rparr>]\<rparr>)
     (\<lambda>k1. bind (numba_funcify_DimShuffle
                    (dimshuffle_op_of 2 (inverse_order 3 [Some 2, Some 0]) False)
                    \<lparr>inputs = [], outputs = [\<lparr>ty_dtype = DType KInt 64, ty_ndim = 3,
                                                ty_shape = [None, Some 1, None]\<rparr>]\<rparr>)
       (\<lambda>k2. bind (run_dimshuffle k1 (Array [2, 1, 3] [1, 2, 3, 4, 5, 6 :: int]))
                (run_dimshuffle k2))) =
     Inr (Array [2, 1, 3] [1, 2, 3, 4, 5, 6])"
proof -
  let ?no = "[Some 2, Some (0 :: nat)]"
  let ?sh = "[2, 1, 3 :: nat]" and ?d = "[1, 2, 3, 4, 5, 6 :: int]"
  let ?n1 = "\<lparr>inputs = [], outputs = [\<lparr>ty_dtype = DType KInt 64, ty_ndim = 2,
                                         ty_shape = [None, None]\<rparr>]\<rparr>"
  let ?n2 = "\<lparr>inputs = [], outputs = [\<lparr>ty_dtype = DType KInt 64, ty_ndim = 3,
                                         ty_shape = [None, Some 1, None]\<rparr>]\<rparr>"
  have h1: "valid_order 3 ?no"
    by (simp add: valid_order_def)
  have h2: "length ?sh = 3"
    by simp
  have h3: "length ?d = prod_list ?sh"
    by simp
  have h4: "\<forall>a\<in>set (dropped_axes 3 ?no). ?sh ! a = 1"
    by code_simp
  have h5: "static_shape_agrees ?n1 (shuffled_shape ?sh ?no)"
    by (simp add: static_shape_agrees_def)
  have h6: "static_shape_agrees ?n2 ?sh"
    by (simp add: static_shape_agrees_def)
  from dimshuffle_round_trip[OF h1 h2 h3 h4 h5 h6, of False False]
  obtain k1 k2 y z where
    k1: "numba_funcify_DimShuffle (dimshuffle_op_of 3 ?no False) ?n1 = Inr k1"
    and k2: "numba_funcify_DimShuffle (dimshuffle_op_of (length ?no) (inverse_order 3 ?no) False)
        ?n2 = Inr k2"
    and y: "run_dimshuffle k1 (Array ?sh ?d) = Inr y"
    and ay: "asarray y = dimshuffled ?sh ?d ?no"
    and z: "run_dimshuffle k2 y = Inr z"
    and zz: "0 < (3 :: nat) \<longrightarrow> z = Array ?sh ?d"
    by (elim exE conjE) (rule that)
  have ops: "dimshuffle_op_of 3 ?no False =
      \<lparr>ds_shuffle = [2, 0], ds_transposition = [2, 0, 1], ds_augment = [],
       ds_inplace = False\<rparr>"
    "dimshuffle_op_of 2 (inverse_order 3 ?no) False =
      \<lparr>ds_shuffle = [1, 0], ds_transposition = [1, 0], ds_augment = [1],
       ds_inplace = False\<rparr>"
    by code_simp+
  have first: "bind (numba_funcify_DimShuffle (dimshuffle_op_of 3 ?no False) ?n1)
      (\<lambda>k1. run_dimshuffle k1 (Array ?sh ?d)) = Inr (Array [3, 2] [1, 4, 2, 5, 3, 6])"
    by code_simp
  have l: "length ?no = 2"
    by simp
  have "bind (numba_funcify_DimShuffle (dimshuffle_op_of 3 ?no False) ?n1)
     (\<lambda>k1. bind (numba_funcify_DimShuffle (dimshuffle_op_of 2 (inverse_order 3 ?no) False) ?n2)
       (\<lambda>k2. bind (run_dimshuffle k1 (Array ?sh ?d)) (run_dimshuffle k2))) = Inr (Array ?sh ?d)"
    using k1 k2[unfolded l] y z zz by simp
  with ops first show ?thesis by blast
qed

end
